theory Spec2Isabelle
  imports Complex_Main "HOL-Library.AList" "HOL-Library.Multiset" "HOL-Library.Word"
begin

unbundle bit_operations_syntax

section \<open>Data model\<close>

text \<open>
  Entities are JavaScript objects: they are compared by reference (\<open>Array.indexOf\<close> uses
  strict equality) and read through their properties. An entity reference is a natural
  number and the properties the physics provider reads are held in a store that maps a
  reference to the object it denotes. Event handlers are not run by the model: a call of
  \<open>fire\<close> is recorded in the list of fired events, in the order of the calls.
\<close>

type_synonym eref = nat
type_synonym guid = string
type_synonym vec3 = "real \<times> real \<times> real"

text \<open>
  Modelled from the spec: the component classes and their event handler base are not among
  the sources at hand; a component (collision or rigidbody) exposes a listener-presence
  query and event firing. A component is the list of the event names that have a handler,
  and \<open>hasEvent\<close> asks whether a name is among them.
\<close>

record component =
  listeners :: "string list"

definition hasEvent :: "component \<Rightarrow> string \<Rightarrow> bool" where
  "hasEvent c name = (name \<in> set (listeners c))"

text \<open>
  The properties of an entity: \<open>getGuid()\<close>, \<open>entity.collision\<close>, \<open>entity.rigidbody\<close>
  (absent components are \<open>None\<close>) and the truthiness of \<open>entity.trigger\<close>.
\<close>

record entity_obj =
  getGuid :: guid
  collision :: "component option"
  rigidbody :: "component option"
  trigger :: bool

type_synonym store = "eref \<Rightarrow> entity_obj"

text \<open>contact.js: ContactPoint, ContactResult, SingleContactResult, RaycastResult.\<close>

record ContactPoint =
  localPoint :: vec3
  localPointOther :: vec3
  point :: vec3
  pointOther :: vec3
  normal :: vec3
  impulse :: real

record ContactResult =
  other :: eref
  contacts :: "ContactPoint list"

text \<open>The fields \<open>a\<close>, \<open>b\<close>, \<open>impulse\<close> and \<open>normal\<close> carry the prefix \<open>s_\<close>.\<close>

record SingleContactResult =
  s_a :: eref
  s_b :: eref
  s_impulse :: real
  localPointA :: vec3
  localPointB :: vec3
  pointA :: vec3
  pointB :: vec3
  s_normal :: vec3

text \<open>
  \<open>RaycastResult.entity\<close> is whatever \<open>body.entity\<close> was: \<open>None\<close> stands for
  \<open>undefined\<close>/\<open>null\<close>.
\<close>

record RaycastResult =
  r_entity :: "eref option"
  r_point :: vec3
  r_normal :: vec3
  hitFraction :: real

text \<open>
  A fired event: the emitter the source calls \<open>fire\<close> on (the collision component of an
  entity, its rigidbody component, or the system), the event name and the argument.
\<close>

datatype emitter = CollisionOf eref | RigidbodyOf eref | System

datatype fire_arg = ArgEntity eref | ArgContact ContactResult | ArgSingle SingleContactResult

datatype fired = Fire emitter string fire_arg

fun fire_name :: "fired \<Rightarrow> string" where
  "fire_name (Fire em name arg) = name"

fun fire_emitter :: "fired \<Rightarrow> emitter" where
  "fire_emitter (Fire em name arg) = em"

fun fire_argument :: "fired \<Rightarrow> fire_arg" where
  "fire_argument (Fire em name arg) = arg"

text \<open>
  A collision bookkeeping record \<open>{ others: [], entity: entity }\<close>, and the provider's two
  maps \<open>this.collisions\<close> and \<open>this.frameCollisions\<close>. A JavaScript object used as a map
  from guid strings is an association list in insertion order (the order \<open>for ... in\<close>
  enumerates): assigning to an existing key keeps its place, a new key goes last
  (\<open>AList.update\<close>), \<open>delete\<close> removes the key (\<open>AList.delete\<close>). Guids are UUID strings,
  so no key is an array index or a property inherited from \<open>Object.prototype\<close>.
\<close>

record collision_rec =
  others :: "eref list"
  entity :: eref

type_synonym collision_map = "(guid \<times> collision_rec) list"

record provider =
  collisions :: collision_map
  frameCollisions :: collision_map

text \<open>The constructor of PhysicsProvider: both maps start as \<open>{}\<close>.\<close>

definition new_provider :: provider where
  "new_provider = \<lparr>collisions = [], frameCollisions = []\<rparr>"

section \<open>physics-provider.js\<close>

text \<open>\<open>Array.prototype.indexOf\<close>: the first index of the element, or -1.\<close>

primrec indexOf :: "'a list \<Rightarrow> 'a \<Rightarrow> int" where
  "indexOf [] x = - 1"
| "indexOf (y # ys) x =
     (if y = x then 0 else (let r = indexOf ys x in if r < 0 then - 1 else r + 1))"

text \<open>\<open>xs.splice(i, 1)\<close>: the array without its element at index \<open>i\<close>.\<close>

definition splice1 :: "'a list \<Rightarrow> nat \<Rightarrow> 'a list" where
  "splice1 xs i = take i xs @ drop (Suc i) xs"

text \<open>\<open>_hasContactEvent(entity)\<close>, read for its truthiness.\<close>

definition hasContactEvent :: "entity_obj \<Rightarrow> bool" where
  "hasContactEvent ent =
     (if (case collision ent of None \<Rightarrow> False
          | Some c \<Rightarrow> hasEvent c ''collisionstart'' \<or> hasEvent c ''collisionend'' \<or> hasEvent c ''contact'')
      then True
      else (case rigidbody ent of None \<Rightarrow> False
            | Some r \<Rightarrow> hasEvent r ''collisionstart'' \<or> hasEvent r ''collisionend'' \<or> hasEvent r ''contact''))"

text \<open>
  \<open>_storeCollision(entity, other)\<close>: returns \<open>isNewCollision\<close> and the provider with both
  maps updated.
\<close>

definition storeCollision :: "store \<Rightarrow> provider \<Rightarrow> eref \<Rightarrow> eref \<Rightarrow> bool \<times> provider" where
  "storeCollision H p ent oth =
     (let g = getGuid (H ent);
          c = (case map_of (collisions p) g of Some c \<Rightarrow> c
               | None \<Rightarrow> \<lparr>others = [], entity = ent\<rparr>);
          isNewCollision = (indexOf (others c) oth < 0);
          c' = (if isNewCollision then c\<lparr>others := others c @ [oth]\<rparr> else c);
          f = (case map_of (frameCollisions p) g of Some f \<Rightarrow> f
               | None \<Rightarrow> \<lparr>others = [], entity = ent\<rparr>);
          f' = f\<lparr>others := others f @ [oth]\<rparr>
      in (isNewCollision,
          p\<lparr>collisions := AList.update g c' (collisions p),
            frameCollisions := AList.update g f' (frameCollisions p)\<rparr>))"

text \<open>
  The events fired in \<open>_cleanOldCollisions\<close> for one removed \<open>other\<close> of the record of
  \<open>entity\<close> (the body of the \<open>if\<close> after the \<open>splice\<close>).
\<close>

definition exit_fires :: "store \<Rightarrow> eref \<Rightarrow> eref \<Rightarrow> fired list" where
  "exit_fires H ent oth =
     (if trigger (H ent) then
        (if collision (H ent) \<noteq> None then [Fire (CollisionOf ent) ''triggerleave'' (ArgEntity oth)] else []) @
        (if rigidbody (H oth) \<noteq> None then [Fire (RigidbodyOf oth) ''triggerleave'' (ArgEntity ent)] else [])
      else if \<not> trigger (H oth) then
        (if rigidbody (H ent) \<noteq> None then [Fire (RigidbodyOf ent) ''collisionend'' (ArgEntity oth)] else []) @
        (if collision (H ent) \<noteq> None then [Fire (CollisionOf ent) ''collisionend'' (ArgEntity oth)] else [])
      else [])"

text \<open>
  The loop \<open>let i = length; while (i--) { ... }\<close> over one record: the counter is the value
  of \<open>i\<close> before the test, the body runs at index \<open>i - 1\<close>. \<open>frameCollision\<close> is the transient
  record of the same guid (\<open>None\<close> when \<open>undefined\<close>). Returns the spliced \<open>others\<close> and the
  events fired.
\<close>

fun clean_others :: "store \<Rightarrow> collision_rec option \<Rightarrow> eref \<Rightarrow> nat \<Rightarrow> eref list \<Rightarrow> eref list \<times> fired list" where
  "clean_others H frameCollision ent 0 os = (os, [])"
| "clean_others H frameCollision ent (Suc i) os =
     (let oth = os ! i in
      if (case frameCollision of None \<Rightarrow> True | Some f \<Rightarrow> indexOf (others f) oth < 0)
      then (let (os', fs) = clean_others H frameCollision ent i (splice1 os i)
            in (os', exit_fires H ent oth @ fs))
      else clean_others H frameCollision ent i os)"

text \<open>The body of \<open>for (const guid in this.collisions)\<close> for one enumerated key.\<close>

definition clean_record :: "store \<Rightarrow> guid \<Rightarrow> provider \<times> fired list \<Rightarrow> provider \<times> fired list" where
  "clean_record H g st =
     (let (p, evs) = st in
      case map_of (collisions p) g of
        None \<Rightarrow> (p, evs)
      | Some c \<Rightarrow>
          (let frameCollision = map_of (frameCollisions p) g;
               (os', fs) = clean_others H frameCollision (entity c) (length (others c)) (others c);
               cs' = AList.update g (c\<lparr>others := os'\<rparr>) (collisions p);
               cs'' = (if length os' = 0 then AList.delete g cs' else cs')
           in (p\<lparr>collisions := cs''\<rparr>, evs @ fs)))"

text \<open>\<open>_cleanOldCollisions()\<close>: the provider afterwards and the events fired, in order.\<close>

definition cleanOldCollisions :: "store \<Rightarrow> provider \<Rightarrow> provider \<times> fired list" where
  "cleanOldCollisions H p = fold (clean_record H) (map fst (collisions p)) (p, [])"

section \<open>ammo-provider.js\<close>

text \<open>
  The backend's objects, as far as the provider reads them. A rigid body wrapper has the
  property \<open>entity\<close> (\<open>None\<close> when it is \<open>null\<close> or \<open>undefined\<close>) and its collision flags,
  a 32-bit integer under JavaScript's \<open>&\<close>. A manifold point has the five vectors and
  the applied impulse that \<open>_createContactPointFromAmmo\<close> reads; a manifold has its two
  bodies and its contact points (\<open>getNumContacts()\<close> is their number).
\<close>

record btRigidBody =
  body_entity :: "eref option"
  getCollisionFlags :: "32 word"

record btManifoldPoint =
  m_localPointA :: vec3
  m_localPointB :: vec3
  getPositionWorldOnA :: vec3
  getPositionWorldOnB :: vec3
  m_normalWorldOnB :: vec3
  getAppliedImpulse :: real

record btPersistentManifold =
  getBody0 :: btRigidBody
  getBody1 :: btRigidBody
  contactPoints :: "btManifoldPoint list"

text \<open>
  \<open>flags & BODYFLAG_NORESPONSE_OBJECT\<close>, read for its truthiness. The constant is imported
  from a file that is not part of the sources at hand, so it is a parameter \<open>nr\<close>.
\<close>

definition noresponse :: "32 word \<Rightarrow> btRigidBody \<Rightarrow> bool" where
  "noresponse nr body = (getCollisionFlags body AND nr \<noteq> 0)"

text \<open>
  The contact point pool hands out a ContactPoint whose fields are all overwritten, so an
  allocation is the construction of a value.
\<close>

definition createContactPointFromAmmo :: "btManifoldPoint \<Rightarrow> ContactPoint" where
  "createContactPointFromAmmo contactPoint =
     \<lparr>localPoint = m_localPointA contactPoint,
      localPointOther = m_localPointB contactPoint,
      point = getPositionWorldOnA contactPoint,
      pointOther = getPositionWorldOnB contactPoint,
      normal = m_normalWorldOnB contactPoint,
      impulse = getAppliedImpulse contactPoint\<rparr>"

definition createReverseContactPointFromAmmo :: "btManifoldPoint \<Rightarrow> ContactPoint" where
  "createReverseContactPointFromAmmo contactPoint =
     \<lparr>localPoint = m_localPointB contactPoint,
      localPointOther = m_localPointA contactPoint,
      point = getPositionWorldOnB contactPoint,
      pointOther = getPositionWorldOnA contactPoint,
      normal = m_normalWorldOnB contactPoint,
      impulse = getAppliedImpulse contactPoint\<rparr>"

definition createSingleContactResult :: "eref \<Rightarrow> eref \<Rightarrow> ContactPoint \<Rightarrow> SingleContactResult" where
  "createSingleContactResult ea eb contactPoint =
     \<lparr>s_a = ea, s_b = eb,
      s_impulse = impulse contactPoint,
      localPointA = localPoint contactPoint,
      localPointB = localPointOther contactPoint,
      pointA = point contactPoint,
      pointB = pointOther contactPoint,
      s_normal = normal contactPoint\<rparr>"

definition createContactResult :: "eref \<Rightarrow> ContactPoint list \<Rightarrow> ContactResult" where
  "createContactResult oth cs = \<lparr>other = oth, contacts = cs\<rparr>"

text \<open>
  \<open>e.collision && (e.collision.hasEvent('triggerenter') || e.collision.hasEvent('triggerleave'))\<close>
  and the same for the rigidbody component, read for their truthiness.
\<close>

definition triggerEvents :: "component option \<Rightarrow> bool" where
  "triggerEvents cm =
     (case cm of None \<Rightarrow> False
      | Some c \<Rightarrow> hasEvent c ''triggerenter'' \<or> hasEvent c ''triggerleave'')"

text \<open>
  The trigger branch of \<open>_checkForCollisions\<close> for one manifold. \<open>newCollision\<close> is declared
  once per manifold and starts \<open>undefined\<close>, which every test reads as false. The four
  \<open>if\<close> blocks run in the order of the source; each takes the flag and the provider and
  returns them with the events it fired.
\<close>

definition trigger_collision_side ::
  "store \<Rightarrow> bool \<Rightarrow> bool \<Rightarrow> eref \<Rightarrow> eref \<Rightarrow> bool \<times> provider \<Rightarrow> (bool \<times> provider) \<times> fired list" where
  "trigger_collision_side H events other_noresponse ent oth st =
     (let (newCollision, p) = st in
      if events then
        (let (newCollision', p') = storeCollision H p ent oth
         in ((newCollision', p'),
             (if newCollision' \<and> \<not> other_noresponse
              then [Fire (CollisionOf ent) ''triggerenter'' (ArgEntity oth)] else [])))
      else ((newCollision, p), []))"

definition trigger_body_side ::
  "store \<Rightarrow> bool \<Rightarrow> eref \<Rightarrow> eref \<Rightarrow> bool \<times> provider \<Rightarrow> (bool \<times> provider) \<times> fired list" where
  "trigger_body_side H bodyEvents ent oth st =
     (let (newCollision, p) = st in
      if bodyEvents then
        (let (newCollision', p') =
               (if \<not> newCollision then storeCollision H p oth ent else (newCollision, p))
         in ((newCollision', p'),
             (if newCollision' then [Fire (RigidbodyOf ent) ''triggerenter'' (ArgEntity oth)] else [])))
      else ((newCollision, p), []))"

definition trigger_path ::
  "store \<Rightarrow> bool \<Rightarrow> bool \<Rightarrow> eref \<Rightarrow> eref \<Rightarrow> provider \<Rightarrow> provider \<times> fired list" where
  "trigger_path H nr0 nr1 e0 e1 p =
     (let e0Events = triggerEvents (collision (H e0));
          e1Events = triggerEvents (collision (H e1));
          e0BodyEvents = triggerEvents (rigidbody (H e0));
          e1BodyEvents = triggerEvents (rigidbody (H e1));
          (st1, fs1) = trigger_collision_side H e0Events nr1 e0 e1 (False, p);
          (st2, fs2) = trigger_collision_side H e1Events nr0 e1 e0 st1;
          (st3, fs3) = trigger_body_side H e0BodyEvents e0 e1 st2;
          (st4, fs4) = trigger_body_side H e1BodyEvents e1 e0 st3
      in (snd st4, fs1 @ fs2 @ fs3 @ fs4))"

text \<open>
  The other branch: the loop over the contact points (the global \<open>contact\<close> events it
  fires, in order), then the per-entity results.
\<close>

definition global_contact_fires :: "bool \<Rightarrow> eref \<Rightarrow> eref \<Rightarrow> btManifoldPoint list \<Rightarrow> fired list" where
  "global_contact_fires globalEvents e0 e1 pts =
     (if globalEvents
      then map (\<lambda>pt. Fire System ''contact''
                 (ArgSingle (createSingleContactResult e0 e1 (createContactPointFromAmmo pt)))) pts
      else [])"

definition contact_side ::
  "store \<Rightarrow> bool \<Rightarrow> eref \<Rightarrow> eref \<Rightarrow> ContactPoint list \<Rightarrow> provider \<Rightarrow> provider \<times> fired list" where
  "contact_side H events ent oth cs p =
     (if events then
        (let result = createContactResult oth cs;
             (newCollision, p') = storeCollision H p ent oth
         in (p',
             (if collision (H ent) \<noteq> None
              then Fire (CollisionOf ent) ''contact'' (ArgContact result) #
                   (if newCollision then [Fire (CollisionOf ent) ''collisionstart'' (ArgContact result)] else [])
              else []) @
             (if rigidbody (H ent) \<noteq> None
              then Fire (RigidbodyOf ent) ''contact'' (ArgContact result) #
                   (if newCollision then [Fire (RigidbodyOf ent) ''collisionstart'' (ArgContact result)] else [])
              else [])))
      else (p, []))"

definition contact_path ::
  "store \<Rightarrow> bool \<Rightarrow> eref \<Rightarrow> eref \<Rightarrow> btManifoldPoint list \<Rightarrow> provider \<Rightarrow> provider \<times> fired list" where
  "contact_path H globalEvents e0 e1 pts p =
     (let e0Events = hasContactEvent (H e0);
          e1Events = hasContactEvent (H e1)
      in if globalEvents \<or> e0Events \<or> e1Events then
           (let forwardContacts =
                  (if e0Events \<or> e1Events then map createContactPointFromAmmo pts else []);
                reverseContacts =
                  (if e0Events \<or> e1Events then map createReverseContactPointFromAmmo pts else []);
                fs0 = global_contact_fires globalEvents e0 e1 pts;
                (p1, fs1) = contact_side H e0Events e0 e1 forwardContacts p;
                (p2, fs2) = contact_side H e1Events e1 e0 reverseContacts p1
            in (p2, fs0 @ fs1 @ fs2))
         else (p, []))"

text \<open>
  The body of the loop over the manifolds. \<open>globalEvents\<close> is
  \<open>this.system.hasEvent('contact')\<close>.
\<close>

definition check_manifold ::
  "store \<Rightarrow> 32 word \<Rightarrow> bool \<Rightarrow> btPersistentManifold \<Rightarrow> provider \<times> fired list \<Rightarrow> provider \<times> fired list" where
  "check_manifold H nr globalEvents manifold st =
     (let (p, evs) = st in
      case (body_entity (getBody0 manifold), body_entity (getBody1 manifold)) of
        (Some e0, Some e1) \<Rightarrow>
          (if length (contactPoints manifold) > 0 then
             (let (p', fs) =
                (if noresponse nr (getBody0 manifold) \<or> noresponse nr (getBody1 manifold)
                 then trigger_path H (noresponse nr (getBody0 manifold))
                        (noresponse nr (getBody1 manifold)) e0 e1 p
                 else contact_path H globalEvents e0 e1 (contactPoints manifold) p)
              in (p', evs @ fs))
           else (p, evs))
      | _ \<Rightarrow> (p, evs))"

text \<open>
  \<open>_checkForCollisions\<close>: reset the transient map, run the manifolds in order, clean the
  old collisions. (Freeing the three pools changes nothing the model holds.)
\<close>

definition checkForCollisions ::
  "store \<Rightarrow> 32 word \<Rightarrow> bool \<Rightarrow> btPersistentManifold list \<Rightarrow> provider \<Rightarrow> provider \<times> fired list" where
  "checkForCollisions H nr globalEvents manifolds p =
     (let (p1, log1) = fold (check_manifold H nr globalEvents) manifolds (p\<lparr>frameCollisions := []\<rparr>, []);
          (p2, log2) = cleanOldCollisions H p1
      in (p2, log1 @ log2))"

subsection \<open>afterStep and init\<close>

text \<open>
  What the provider asks of the backend. \<open>hasInternalTickCallback\<close> is the truthiness of
  \<open>this.dynamicsWorld.setInternalTickCallback\<close>, \<open>hasAllHitsRayResultCallback\<close> that of
  \<open>Ammo.AllHitsRayResultCallback\<close>. A ray test is a function of the two end points and of
  the collision group and mask set on the callback (\<open>None\<close> when the option is not a
  number and the callback keeps its default); it returns the callback as the provider
  reads it afterwards. \<open>Ammo.castObject\<close> of a collision object is a body or \<open>null\<close>. The
  all-hits callback holds parallel arrays read at the same index, here one list of hits.
\<close>

record ClosestRayResultCallback =
  c_hasHit :: bool
  c_collisionObject :: "btRigidBody option"
  c_hitPointWorld :: vec3
  c_hitNormalWorld :: vec3
  c_closestHitFraction :: real

record ray_hit =
  h_collisionObject :: "btRigidBody option"
  h_hitPointWorld :: vec3
  h_hitNormalWorld :: vec3
  h_hitFraction :: real

record AllHitsRayResultCallback =
  a_hasHit :: bool
  a_hits :: "ray_hit list"

record backend =
  hasInternalTickCallback :: bool
  hasAllHitsRayResultCallback :: bool
  rayTestClosest :: "vec3 \<Rightarrow> vec3 \<Rightarrow> int option \<Rightarrow> int option \<Rightarrow> ClosestRayResultCallback"
  rayTestAll :: "vec3 \<Rightarrow> vec3 \<Rightarrow> int option \<Rightarrow> int option \<Rightarrow> AllHitsRayResultCallback"

datatype js_error = ReferenceError string | TypeError string

text \<open>
  \<open>init\<close>, as far as the tick callback goes: whether \<open>_checkForCollisions\<close> was registered
  as the internal tick callback, and the warnings written with \<open>Debug.warn\<close>.
\<close>

definition init :: "backend \<Rightarrow> bool \<times> string list" where
  "init B =
     (if hasInternalTickCallback B then (True, [])
      else (False, [''WARNING: This version of ammo.js can potentially fail to report contacts. Please update it to the latest version.'']))"

text \<open>
  \<open>afterStep()\<close> takes no parameter and calls
  \<open>this._checkForCollisions(Ammo.getPointer(this.dynamicsWorld), dt)\<close>. The identifier \<open>dt\<close>
  is bound neither in the method nor in the module (whose bindings are its imports and
  \<open>_ammoTransform\<close>, \<open>_ammoVec1\<close>, \<open>_ammoVec2\<close>, \<open>_ammoQuat\<close>, \<open>ammoRayStart\<close>, \<open>ammoRayEnd\<close>),
  so it is looked up on the global object when the arguments are evaluated, before the
  call: \<open>globals\<close> says which names the global object binds, and an unbound name is a
  ReferenceError. The manifolds are those of the world's dispatcher.
\<close>

definition afterStep ::
  "(string \<Rightarrow> bool) \<Rightarrow> backend \<Rightarrow> store \<Rightarrow> 32 word \<Rightarrow> bool \<Rightarrow> btPersistentManifold list \<Rightarrow>
   provider \<Rightarrow> js_error + provider \<times> fired list" where
  "afterStep globals B H nr globalEvents manifolds p =
     (if \<not> hasInternalTickCallback B then
        (if globals ''dt'' then Inr (checkForCollisions H nr globalEvents manifolds p)
         else Inl (ReferenceError ''dt''))
      else Inr (p, []))"

subsection \<open>raycastFirst and raycastAll\<close>

text \<open>
  The options object. \<open>sort\<close> is read for its truthiness (the field is \<open>sort_opt\<close> here),
  group and mask count when they are numbers, \<open>filterTags\<close> is an array of tag queries
  and \<open>filterCallback\<close> a predicate on entities, each \<open>None\<close> when absent. An array and
  a function are truthy, so \<open>options.filterTags || options.filterCallback\<close> asks whether one
  of them is present. \<open>entity.tags.has(...)\<close> belongs to the entity library and is
  the parameter \<open>tags_has\<close>.
\<close>

datatype tag_query = Tag string | AllOf "string list"

record options =
  sort_opt :: bool
  filterCollisionGroup :: "int option"
  filterCollisionMask :: "int option"
  filterTags :: "tag_query list option"
  filterCallback :: "(eref \<Rightarrow> bool) option"

definition present :: "'a option \<Rightarrow> bool" where
  "present x = (case x of None \<Rightarrow> False | Some y \<Rightarrow> True)"

text \<open>
  The loop of \<open>raycastAll\<close> over the hits: a hit without a body or whose body has no entity
  is skipped, a hit whose entity fails a filter is skipped by \<open>continue\<close>, every other hit
  pushes a RaycastResult.
\<close>

fun collect_hits ::
  "(eref \<Rightarrow> tag_query list \<Rightarrow> bool) \<Rightarrow> options \<Rightarrow> ray_hit list \<Rightarrow> RaycastResult list" where
  "collect_hits tags_has opts [] = []"
| "collect_hits tags_has opts (h # hs) =
     (case h_collisionObject h of
        None \<Rightarrow> collect_hits tags_has opts hs
      | Some body \<Rightarrow>
          (case body_entity body of
             None \<Rightarrow> collect_hits tags_has opts hs
           | Some e \<Rightarrow>
               if (case filterTags opts of None \<Rightarrow> False | Some q \<Rightarrow> \<not> tags_has e q) \<or>
                  (case filterCallback opts of None \<Rightarrow> False | Some cb \<Rightarrow> \<not> cb e)
               then collect_hits tags_has opts hs
               else \<lparr>r_entity = Some e, r_point = h_hitPointWorld h,
                     r_normal = h_hitNormalWorld h, hitFraction = h_hitFraction h\<rparr> #
                    collect_hits tags_has opts hs))"

text \<open>
  \<open>raycastAll(start, end, options)\<close>. The absence of \<open>Ammo.AllHitsRayResultCallback\<close> is
  a failure of the call: \<open>Debug.assert\<close> (not among the sources at hand) reports it, and
  the \<open>new\<close> expression on what is not a constructor raises a TypeError.
  \<open>results.sort((a, b) => a.hitFraction - b.hitFraction)\<close> is a stable sort by the hit
  fraction; the fractions are numbers of the backend, never NaN.
\<close>

definition raycastAll ::
  "backend \<Rightarrow> (eref \<Rightarrow> tag_query list \<Rightarrow> bool) \<Rightarrow> vec3 \<Rightarrow> vec3 \<Rightarrow> options \<Rightarrow>
   js_error + RaycastResult list" where
  "raycastAll B tags_has rayStart rayEnd opts =
     (if \<not> hasAllHitsRayResultCallback B
      then Inl (TypeError ''Ammo.AllHitsRayResultCallback is not a constructor'')
      else
        (let rayCallback =
               rayTestAll B rayStart rayEnd (filterCollisionGroup opts) (filterCollisionMask opts)
         in Inr (if a_hasHit rayCallback then
                   (let results = collect_hits tags_has opts (a_hits rayCallback)
                    in if sort_opt opts then sort_key hitFraction results else results)
                 else [])))"

text \<open>
  \<open>raycastFirst(start, end, options)\<close>: the result (\<open>None\<close> for \<open>null\<close>) and the options object
  as the call leaves it. \<open>xs[0] || null\<close> is the first element, or \<open>null\<close> when there is none.
\<close>

definition raycastFirst ::
  "backend \<Rightarrow> (eref \<Rightarrow> tag_query list \<Rightarrow> bool) \<Rightarrow> vec3 \<Rightarrow> vec3 \<Rightarrow> options \<Rightarrow>
   (js_error + RaycastResult option) \<times> options" where
  "raycastFirst B tags_has rayStart rayEnd opts =
     (if present (filterTags opts) \<or> present (filterCallback opts) then
        (let opts' = opts\<lparr>sort_opt := True\<rparr> in
         ((case raycastAll B tags_has rayStart rayEnd opts' of
             Inl err \<Rightarrow> Inl err
           | Inr rs \<Rightarrow> Inr (if 0 < length rs then Some (rs ! 0) else None)),
          opts'))
      else
        (let rayCallback =
               rayTestClosest B rayStart rayEnd (filterCollisionGroup opts) (filterCollisionMask opts);
             result =
               (if c_hasHit rayCallback then
                  (case c_collisionObject rayCallback of
                     None \<Rightarrow> None
                   | Some body \<Rightarrow>
                       Some \<lparr>r_entity = body_entity body,
                             r_point = c_hitPointWorld rayCallback,
                             r_normal = c_hitNormalWorld rayCallback,
                             hitFraction = c_closestHitFraction rayCallback\<rparr>)
                else None)
         in (Inr result, opts)))"

section \<open>Notions the properties are stated with\<close>

text \<open>The others-list of the record of a guid in a map; empty when the guid has no record.\<close>

definition others_of :: "collision_map \<Rightarrow> guid \<Rightarrow> eref list" where
  "others_of cm g = (case map_of cm g of None \<Rightarrow> [] | Some c \<Rightarrow> others c)"

text \<open>A sequence of \<open>_storeCollision\<close> calls, each on the provider the previous one left.\<close>

definition store_calls :: "store \<Rightarrow> (eref \<times> eref) list \<Rightarrow> provider \<Rightarrow> provider" where
  "store_calls H calls p = fold (\<lambda>(x, y) q. snd (storeCollision H q x y)) calls p"

text \<open>
  A small scene for concrete runs: entity 0 is a trigger volume with listeners on its
  collision component, entity 1 a rigid body that listens for \<open>triggerenter\<close> on its
  rigidbody component and for collision events on its collision component, every other
  entity a rigid body that listens for \<open>contact\<close>.
\<close>

definition scene :: store where
  "scene n =
     (if n = 0 then
        \<lparr>getGuid = ''guid-trigger'',
         collision = Some \<lparr>listeners = [''triggerenter'', ''triggerleave'']\<rparr>,
         rigidbody = None, trigger = True\<rparr>
      else if n = 1 then
        \<lparr>getGuid = ''guid-ball'',
         collision = Some \<lparr>listeners = [''collisionstart'', ''collisionend'']\<rparr>,
         rigidbody = Some \<lparr>listeners = [''triggerenter'']\<rparr>, trigger = False\<rparr>
      else
        \<lparr>getGuid = ''guid-box'',
         collision = None,
         rigidbody = Some \<lparr>listeners = [''contact'']\<rparr>, trigger = False\<rparr>)"

text \<open>
  Whether the transient map lists an other under a guid; the others of a persistent record
  that it lists (\<open>kept\<close>) and that it does not (\<open>ended\<close>), in the order of the record.
\<close>

definition in_frame :: "collision_map \<Rightarrow> guid \<Rightarrow> eref \<Rightarrow> bool" where
  "in_frame p g oth = (oth \<in> set (others_of p g))"

definition kept :: "collision_map \<Rightarrow> guid \<Rightarrow> collision_rec \<Rightarrow> eref list" where
  "kept p g c = filter (in_frame p g) (others c)"

definition ended :: "collision_map \<Rightarrow> guid \<Rightarrow> collision_rec \<Rightarrow> eref list" where
  "ended p g c = filter (\<lambda>oth. \<not> in_frame p g oth) (others c)"

text \<open>
  The clean pass, said in one piece: the events are the exit events of the ended others
  of each record, the records in the order of the map and the others of a record from the
  last to the first; the map keeps of each record the others that are still listed, and
  drops the record when none is.
\<close>

definition exit_log :: "store \<Rightarrow> collision_map \<Rightarrow> collision_map \<Rightarrow> fired list" where
  "exit_log H p cm = concat (map (\<lambda>(g, c). concat (map (exit_fires H (entity c)) (rev (ended p g c)))) cm)"

definition cleaned :: "collision_map \<Rightarrow> collision_map \<Rightarrow> collision_map" where
  "cleaned p cm = concat (map (\<lambda>(g, c). if kept p g c = [] then [] else [(g, c\<lparr>others := kept p g c\<rparr>)]) cm)"

text \<open>The test of the loop: \<open>!frameCollision || frameCollision.others.indexOf(other) < 0\<close>.\<close>

definition absent :: "collision_rec option \<Rightarrow> eref \<Rightarrow> bool" where
  "absent fc oth = (case fc of None \<Rightarrow> True | Some f \<Rightarrow> oth \<notin> set (others f))"

text \<open>
  A provider in the scene: the trigger volume 0 was overlapped by the ball 1, the ball
  touched the box 2 and the trigger; in this step only the ball and the box were seen.
\<close>

definition demo_provider :: provider where
  "demo_provider =
     \<lparr>collisions = [(''guid-trigger'', \<lparr>others = [1], entity = 0\<rparr>),
                    (''guid-ball'', \<lparr>others = [2, 0], entity = 1\<rparr>)],
      frameCollisions = [(''guid-ball'', \<lparr>others = [2, 2], entity = 1\<rparr>)]\<rparr>"

text \<open>
  The invariants of the persistent map: one record per guid (what a JavaScript object
  is), and no other twice in the others-list of a record. \<open>no_empty\<close>: no record with an
  empty others-list.
\<close>

definition no_duplicates :: "provider \<Rightarrow> bool" where
  "no_duplicates p =
     (distinct (map fst (collisions p)) \<and> (\<forall>(g, c) \<in> set (collisions p). distinct (others c)))"

definition no_empty :: "provider \<Rightarrow> bool" where
  "no_empty p = (\<forall>(g, c) \<in> set (collisions p). others c \<noteq> [])"

text \<open>
  The entities an event is about: the owner of the component it is fired on and the
  entities its argument names.
\<close>

fun emitter_entities :: "emitter \<Rightarrow> eref list" where
  "emitter_entities (CollisionOf e) = [e]"
| "emitter_entities (RigidbodyOf e) = [e]"
| "emitter_entities System = []"

fun arg_entities :: "fire_arg \<Rightarrow> eref list" where
  "arg_entities (ArgEntity e) = [e]"
| "arg_entities (ArgContact r) = [other r]"
| "arg_entities (ArgSingle r) = [s_a r, s_b r]"

fun participants :: "fired \<Rightarrow> eref list" where
  "participants (Fire em name arg) = emitter_entities em @ arg_entities arg"

text \<open>
  Modelled from the spec: the code that creates trigger volumes is not among the sources at
  hand. A trigger volume is a body flagged to report overlap without physical response:
  the engine flags the body of a trigger volume no-response and sets \<open>entity.trigger\<close> on
  its entity, and does neither for any other body. \<open>flags_agree\<close> says it of one body.
\<close>

definition flags_agree :: "store \<Rightarrow> 32 word \<Rightarrow> btRigidBody \<Rightarrow> bool" where
  "flags_agree H nr body =
     (case body_entity body of None \<Rightarrow> True | Some e \<Rightarrow> noresponse nr body = trigger (H e))"

text \<open>
  A manifold of the scene: the ball (entity 1, an ordinary body) overlaps the trigger
  volume (entity 0, flagged no-response, with 4 as the flag bit) in one contact point.
\<close>

definition demo_manifold :: btPersistentManifold where
  "demo_manifold =
     \<lparr>getBody0 = \<lparr>body_entity = Some 1, getCollisionFlags = 0\<rparr>,
      getBody1 = \<lparr>body_entity = Some 0, getCollisionFlags = 4\<rparr>,
      contactPoints =
        [\<lparr>m_localPointA = (0, 0, 0), m_localPointB = (0, 0, 0),
          getPositionWorldOnA = (0, 0, 0), getPositionWorldOnB = (0, 0, 0),
          m_normalWorldOnB = (0, 1, 0), getAppliedImpulse = 0\<rparr>]\<rparr>"

text \<open>
  A pair is newly listed between two providers when the persistent record of the entity
  did not list the other before and lists it after: a \<open>storeCollision\<close> call for the pair
  returned true in between.
\<close>

definition newly_listed :: "store \<Rightarrow> provider \<Rightarrow> provider \<Rightarrow> eref \<Rightarrow> eref \<Rightarrow> bool" where
  "newly_listed H p p' e oth =
     (oth \<notin> set (others_of (collisions p) (getGuid (H e))) \<and>
      oth \<in> set (others_of (collisions p') (getGuid (H e))))"

text \<open>
  What C8 and C9 say of the results, in their words: the entity a hit resolves to, whether
  an entity passes the tag and callback filters, the RaycastResult of each hit that resolves
  and passes, in the backend's order; and \<open>raycastFirst\<close> as the first element of
  \<open>raycastAll\<close> with sorting forced on.
\<close>

definition resolved_entity :: "ray_hit \<Rightarrow> eref option" where
  "resolved_entity h = (case h_collisionObject h of None \<Rightarrow> None | Some body \<Rightarrow> body_entity body)"

definition passes_filters :: "(eref \<Rightarrow> tag_query list \<Rightarrow> bool) \<Rightarrow> options \<Rightarrow> eref \<Rightarrow> bool" where
  "passes_filters tags_has opts e =
     ((case filterTags opts of None \<Rightarrow> True | Some q \<Rightarrow> tags_has e q) \<and>
      (case filterCallback opts of None \<Rightarrow> True | Some cb \<Rightarrow> cb e))"

definition qualifying_results ::
  "(eref \<Rightarrow> tag_query list \<Rightarrow> bool) \<Rightarrow> options \<Rightarrow> ray_hit list \<Rightarrow> RaycastResult list" where
  "qualifying_results tags_has opts hits =
     List.map_filter
       (\<lambda>h. case resolved_entity h of
               None \<Rightarrow> None
             | Some e \<Rightarrow>
                 if passes_filters tags_has opts e
                 then Some \<lparr>r_entity = Some e, r_point = h_hitPointWorld h,
                            r_normal = h_hitNormalWorld h, hitFraction = h_hitFraction h\<rparr>
                 else None) hits"

definition raycastFirst_spec ::
  "backend \<Rightarrow> (eref \<Rightarrow> tag_query list \<Rightarrow> bool) \<Rightarrow> vec3 \<Rightarrow> vec3 \<Rightarrow> options \<Rightarrow>
   js_error + RaycastResult option" where
  "raycastFirst_spec B tags_has rayStart rayEnd opts =
     (case raycastAll B tags_has rayStart rayEnd (opts\<lparr>sort_opt := True\<rparr>) of
        Inl err \<Rightarrow> Inl err
      | Inr [] \<Rightarrow> Inr None
      | Inr (r # rs) \<Rightarrow> Inr (Some r))"

text \<open>
  A backend for concrete runs: an old build without the tick callback hook; its closest-hit
  query reports a body that has no entity, at fraction 1/10; its all-hits query reports
  the box (entity 2) at 7/10, the ball (entity 1) at 2/5 and the body without entity. No
  entity carries a tag. \<open>no_options\<close> is \<open>{}\<close>, \<open>ball_options\<close> asks for the ball by a
  callback.
\<close>

definition demo_backend :: backend where
  "demo_backend =
     \<lparr>hasInternalTickCallback = False,
      hasAllHitsRayResultCallback = True,
      rayTestClosest = (\<lambda>s e g m.
        \<lparr>c_hasHit = True,
         c_collisionObject = Some \<lparr>body_entity = None, getCollisionFlags = 0\<rparr>,
         c_hitPointWorld = (0, 4, 0), c_hitNormalWorld = (0, 1, 0),
         c_closestHitFraction = 1 / 10\<rparr>),
      rayTestAll = (\<lambda>s e g m.
        \<lparr>a_hasHit = True,
         a_hits =
           [\<lparr>h_collisionObject = Some \<lparr>body_entity = Some 2, getCollisionFlags = 0\<rparr>,
             h_hitPointWorld = (0, - 2, 0), h_hitNormalWorld = (0, 1, 0), h_hitFraction = 7 / 10\<rparr>,
            \<lparr>h_collisionObject = Some \<lparr>body_entity = Some 1, getCollisionFlags = 0\<rparr>,
             h_hitPointWorld = (0, 1, 0), h_hitNormalWorld = (0, 1, 0), h_hitFraction = 2 / 5\<rparr>,
            \<lparr>h_collisionObject = Some \<lparr>body_entity = None, getCollisionFlags = 0\<rparr>,
             h_hitPointWorld = (0, 4, 0), h_hitNormalWorld = (0, 1, 0), h_hitFraction = 1 / 10\<rparr>]\<rparr>)\<rparr>"

definition no_tags :: "eref \<Rightarrow> tag_query list \<Rightarrow> bool" where
  "no_tags e q = False"

definition no_options :: options where
  "no_options =
     \<lparr>sort_opt = False, filterCollisionGroup = None, filterCollisionMask = None,
      filterTags = None, filterCallback = None\<rparr>"

definition ball_options :: options where
  "ball_options =
     \<lparr>sort_opt = False, filterCollisionGroup = None, filterCollisionMask = None,
      filterTags = None, filterCallback = Some (\<lambda>e. e = 1)\<rparr>"

section \<open>Properties of the bookkeeping\<close>

subsection \<open>indexOf and the map operations\<close>

lemma indexOf_ge: "- 1 \<le> indexOf xs x"
  by (induction xs) (auto simp: Let_def)

lemma indexOf_neg_iff: "indexOf xs x < 0 \<longleftrightarrow> x \<notin> set xs"
proof (induction xs)
  case Nil
  show ?case by simp
next
  case (Cons y ys)
  have "- 1 \<le> indexOf ys x" by (rule indexOf_ge)
  with Cons show ?case by (auto simp: Let_def)
qed

lemma others_of_update:
  "others_of (AList.update g c cm) g' = (if g' = g then others c else others_of cm g')"
  by (simp add: others_of_def update_conv')

subsection \<open>storeCollision\<close>

lemma store_fst:
  "fst (storeCollision H p e oth) \<longleftrightarrow> oth \<notin> set (others_of (collisions p) (getGuid (H e)))"
  by (simp add: storeCollision_def Let_def indexOf_neg_iff others_of_def split: option.splits)

lemma store_collisions:
  "collisions (snd (storeCollision H p e oth)) =
     AList.update (getGuid (H e))
       (let c = (case map_of (collisions p) (getGuid (H e)) of Some c \<Rightarrow> c
                 | None \<Rightarrow> \<lparr>others = [], entity = e\<rparr>)
        in if oth \<in> set (others c) then c else c\<lparr>others := others c @ [oth]\<rparr>) (collisions p)"
  by (simp add: storeCollision_def Let_def indexOf_neg_iff)

lemma store_frameCollisions:
  "frameCollisions (snd (storeCollision H p e oth)) =
     AList.update (getGuid (H e))
       (let f = (case map_of (frameCollisions p) (getGuid (H e)) of Some f \<Rightarrow> f
                 | None \<Rightarrow> \<lparr>others = [], entity = e\<rparr>)
        in f\<lparr>others := others f @ [oth]\<rparr>) (frameCollisions p)"
  by (simp add: storeCollision_def Let_def)

lemma store_collisions_others:
  "others_of (collisions (snd (storeCollision H p e oth))) g =
     (if g = getGuid (H e) \<and> oth \<notin> set (others_of (collisions p) g)
      then others_of (collisions p) g @ [oth] else others_of (collisions p) g)"
  by (simp add: store_collisions others_of_update Let_def)
     (simp add: others_of_def split: option.splits)

lemma store_frame_others:
  "others_of (frameCollisions (snd (storeCollision H p e oth))) g =
     (if g = getGuid (H e) then others_of (frameCollisions p) g @ [oth]
      else others_of (frameCollisions p) g)"
  by (simp add: store_frameCollisions others_of_update Let_def)
     (simp add: others_of_def split: option.splits)

lemma store_known_unchanged:
  "oth \<in> set (others_of (collisions p) (getGuid (H e))) \<Longrightarrow>
   collisions (snd (storeCollision H p e oth)) = collisions p"
  by (auto simp add: store_collisions Let_def others_of_def update_triv split: option.splits)

lemma store_calls_keep:
  "oth \<in> set (others_of (collisions p) g) \<Longrightarrow>
   oth \<in> set (others_of (collisions (store_calls H calls p)) g)"
  unfolding store_calls_def
proof (induction calls arbitrary: p)
  case Nil
  then show ?case by simp
next
  case (Cons c calls)
  obtain x y where c: "c = (x, y)" by (cases c)
  have "oth \<in> set (others_of (collisions (snd (storeCollision H p x y))) g)"
    using Cons.prems by (auto simp add: store_collisions_others)
  then show ?case using Cons.IH c by simp
qed

text \<open>
  C2. For an entity \<open>e\<close> and an other \<open>oth\<close>: when the persistent record of \<open>e\<close> does not list
  \<open>oth\<close>, \<open>storeCollision\<close> returns true and the others-list of the record becomes the old
  list with \<open>oth\<close> appended, in which \<open>oth\<close> occurs once; when the record lists \<open>oth\<close>, it
  returns false and the persistent map is unchanged; every call appends \<open>oth\<close> to the
  transient others-list of \<open>e\<close>; and after one call for the pair, whatever further
  \<open>storeCollision\<close> calls are made (for any pairs, with no clean pass in between), one more
  call for the pair returns false and leaves the persistent map unchanged.
\<close>

theorem storeCollision_new_then_known:
  "(oth \<notin> set (others_of (collisions p) (getGuid (H e))) \<longrightarrow>
      fst (storeCollision H p e oth) \<and>
      others_of (collisions (snd (storeCollision H p e oth))) (getGuid (H e)) =
        others_of (collisions p) (getGuid (H e)) @ [oth] \<and>
      count_list (others_of (collisions (snd (storeCollision H p e oth))) (getGuid (H e))) oth = 1) \<and>
   (oth \<in> set (others_of (collisions p) (getGuid (H e))) \<longrightarrow>
      \<not> fst (storeCollision H p e oth) \<and>
      collisions (snd (storeCollision H p e oth)) = collisions p) \<and>
   others_of (frameCollisions (snd (storeCollision H p e oth))) (getGuid (H e)) =
     others_of (frameCollisions p) (getGuid (H e)) @ [oth] \<and>
   (\<forall>calls.
      \<not> fst (storeCollision H (store_calls H calls (snd (storeCollision H p e oth))) e oth) \<and>
      collisions (snd (storeCollision H (store_calls H calls (snd (storeCollision H p e oth))) e oth)) =
        collisions (store_calls H calls (snd (storeCollision H p e oth))))"
proof -
  have listed: "oth \<in> set (others_of (collisions (snd (storeCollision H p e oth))) (getGuid (H e)))"
    by (simp add: store_collisions_others)
  have later: "oth \<in> set (others_of (collisions (store_calls H calls (snd (storeCollision H p e oth))))
      (getGuid (H e)))" for calls
    using listed by (rule store_calls_keep)
  show ?thesis
    using later
    by (simp add: store_fst store_collisions_others store_frame_others store_known_unchanged
        count_list_0_iff)
qed

theorem storeCollision_new_then_known_witness:
  "fst (storeCollision scene new_provider 0 1) \<and>
   others_of (collisions (snd (storeCollision scene new_provider 0 1))) ''guid-trigger'' = [1] \<and>
   others_of (frameCollisions (snd (storeCollision scene new_provider 0 1))) ''guid-trigger'' = [1] \<and>
   \<not> fst (storeCollision scene (snd (storeCollision scene new_provider 0 1)) 0 1) \<and>
   \<not> fst (storeCollision scene (snd (storeCollision scene (snd (storeCollision scene new_provider 0 1)) 1 0)) 0 1)"
proof -
  note t = storeCollision_new_then_known [where H = scene and p = new_provider and e = 0 and oth = 1]
  have g: "getGuid (scene 0) = ''guid-trigger''" by (simp add: scene_def)
  have fresh: "1 \<notin> set (others_of (collisions new_provider) (getGuid (scene 0)))"
    by (simp add: others_of_def new_provider_def)
  have frame: "others_of (frameCollisions new_provider) (getGuid (scene 0)) = []"
    by (simp add: others_of_def new_provider_def)
  have old: "others_of (collisions new_provider) (getGuid (scene 0)) = []"
    by (simp add: others_of_def new_provider_def)
  from t fresh have first: "fst (storeCollision scene new_provider 0 1)" by blast
  from t fresh old g have pers: "others_of (collisions (snd (storeCollision scene new_provider 0 1))) ''guid-trigger'' = [1]"
    by simp
  from t frame g have trans: "others_of (frameCollisions (snd (storeCollision scene new_provider 0 1))) ''guid-trigger'' = [1]"
    by simp
  from t have again: "\<not> fst (storeCollision scene (store_calls scene calls (snd (storeCollision scene new_provider 0 1))) 0 1)" for calls
    by blast
  from again [of "[]"] have a0: "\<not> fst (storeCollision scene (snd (storeCollision scene new_provider 0 1)) 0 1)"
    by (simp add: store_calls_def)
  from again [of "[(1, 0)]"] have a1: "\<not> fst (storeCollision scene (snd (storeCollision scene (snd (storeCollision scene new_provider 0 1)) 1 0)) 0 1)"
    by (simp add: store_calls_def)
  from first pers trans a0 a1 show ?thesis by blast
qed

subsection \<open>cleanOldCollisions\<close>

lemma clean_others_eq:
  "n \<le> length os \<Longrightarrow>
   clean_others H fc ent n os =
     (filter (\<lambda>x. \<not> absent fc x) (take n os) @ drop n os,
      concat (map (exit_fires H ent) (rev (filter (absent fc) (take n os)))))"
proof (induction n arbitrary: os)
  case 0
  show ?case by simp
next
  case (Suc i)
  have i: "i < length os" using Suc.prems by simp
  have tk: "take (Suc i) os = take i os @ [os ! i]"
    using i by (simp add: take_Suc_conv_app_nth)
  have test: "(case fc of None \<Rightarrow> True | Some f \<Rightarrow> indexOf (others f) (os ! i) < 0) = absent fc (os ! i)"
    by (simp add: absent_def indexOf_neg_iff split: option.splits)
  show ?case
  proof (cases "absent fc (os ! i)")
    case True
    have len: "i \<le> length (splice1 os i)" using i by (simp add: splice1_def)
    have t1: "take i (splice1 os i) = take i os" using i by (simp add: splice1_def)
    have t2: "drop i (splice1 os i) = drop (Suc i) os" using i by (simp add: splice1_def)
    show ?thesis
      using True test Suc.IH [OF len] by (simp add: t1 t2 tk)
  next
    case False
    have len: "i \<le> length os" using i by simp
    have d: "drop i os = os ! i # drop (Suc i) os" using i by (simp add: Cons_nth_drop_Suc)
    show ?thesis
      using False test Suc.IH [OF len] by (simp add: tk d)
  qed
qed

lemma absent_in_frame: "absent (map_of fm g) oth = (\<not> in_frame fm g oth)"
  by (simp add: absent_def in_frame_def others_of_def split: option.splits)

lemma clean_others_record:
  "clean_others H (map_of (frameCollisions p) g) (entity c) (length (others c)) (others c) =
     (kept (frameCollisions p) g c,
      concat (map (exit_fires H (entity c)) (rev (ended (frameCollisions p) g c))))"
  by (simp add: clean_others_eq kept_def ended_def absent_in_frame [abs_def])

lemma update_middle:
  "g \<notin> fst ` set pre \<Longrightarrow> AList.update g v (pre @ (g, c) # post) = pre @ (g, v) # post"
  by (induction pre) auto

lemma delete_middle:
  "g \<notin> fst ` set pre \<Longrightarrow> g \<notin> fst ` set post \<Longrightarrow>
   AList.delete g (pre @ (g, c) # post) = pre @ post"
  by (simp add: AList.delete_eq) (simp add: AList.delete_eq [symmetric])

lemma map_of_middle:
  "g \<notin> fst ` set pre \<Longrightarrow> map_of (pre @ (g, c) # post) g = Some c"
  by (induction pre) auto

lemma clean_record_step:
  assumes "g \<notin> fst ` set pre" "g \<notin> fst ` set post" "collisions p = pre @ (g, c) # post"
  shows "clean_record H g (p, evs) =
     (p\<lparr>collisions := pre @ cleaned (frameCollisions p) [(g, c)] @ post\<rparr>,
      evs @ exit_log H (frameCollisions p) [(g, c)])"
proof -
  have look: "map_of (collisions p) g = Some c"
    unfolding assms(3) by (rule map_of_middle [OF assms(1)])
  have upd: "AList.update g v (collisions p) = pre @ (g, v) # post" for v
    unfolding assms(3) by (rule update_middle [OF assms(1)])
  have del: "AList.delete g (pre @ (g, v) # post) = pre @ post" for v
    by (rule delete_middle [OF assms(1) assms(2)])
  show ?thesis
    by (simp add: clean_record_def look clean_others_record upd del cleaned_def exit_log_def)
qed

lemma cleaned_Cons: "cleaned fm (x # cm) = cleaned fm [x] @ cleaned fm cm"
  by (simp add: cleaned_def)

lemma cleaned_single:
  "cleaned fm [(g, c)] = (if kept fm g c = [] then [] else [(g, c\<lparr>others := kept fm g c\<rparr>)])"
  by (simp add: cleaned_def)

lemma cleaned_keys: "fst ` set (cleaned fm cm) \<subseteq> fst ` set cm"
proof (induction cm)
  case Nil
  show ?case by (simp add: cleaned_def)
next
  case (Cons x cm)
  obtain g c where x: "x = (g, c)" by (cases x)
  have "fst ` set (cleaned fm [(g, c)]) \<subseteq> {g}" by (simp add: cleaned_single)
  then show ?case
    using Cons.IH unfolding x cleaned_Cons [of fm "(g, c)" cm] by auto
qed

lemma exit_log_Cons: "exit_log H fm (x # cm) = exit_log H fm [x] @ exit_log H fm cm"
  by (simp add: exit_log_def)

lemma clean_fold:
  "distinct (map fst (pre @ post)) \<Longrightarrow> collisions p = pre @ post \<Longrightarrow>
   fold (clean_record H) (map fst post) (p, evs) =
     (p\<lparr>collisions := pre @ cleaned (frameCollisions p) post\<rparr>,
      evs @ exit_log H (frameCollisions p) post)"
proof (induction post arbitrary: pre p evs)
  case Nil
  then show ?case by (simp add: cleaned_def exit_log_def)
next
  case (Cons x post)
  obtain g c where x: "x = (g, c)" by (cases x)
  have g1: "g \<notin> fst ` set pre" and g2: "g \<notin> fst ` set post"
    using Cons.prems(1) x by auto
  have col: "collisions p = pre @ (g, c) # post" using Cons.prems(2) x by simp
  let ?pre = "pre @ cleaned (frameCollisions p) [(g, c)]"
  let ?p = "p\<lparr>collisions := ?pre @ post\<rparr>"
  have step: "clean_record H g (p, evs) = (?p, evs @ exit_log H (frameCollisions p) [(g, c)])"
    using clean_record_step [OF g1 g2 col] by simp
  have keys: "fst ` set (cleaned (frameCollisions p) [(g, c)]) \<subseteq> {g}"
    using cleaned_keys [of "frameCollisions p" "[(g, c)]"] by simp
  have d: "distinct (map fst (?pre @ post))"
  proof -
    have "distinct (map fst (cleaned (frameCollisions p) [(g, c)]))"
      by (simp add: cleaned_single)
    then show ?thesis using Cons.prems(1) x keys g1 g2 by auto
  qed
  have c2: "collisions ?p = ?pre @ post" by simp
  have "fold (clean_record H) (map fst (x # post)) (p, evs) =
        fold (clean_record H) (map fst post) (?p, evs @ exit_log H (frameCollisions p) [(g, c)])"
    using step x by simp
  also have "\<dots> = (?p\<lparr>collisions := ?pre @ cleaned (frameCollisions ?p) post\<rparr>,
      (evs @ exit_log H (frameCollisions p) [(g, c)]) @ exit_log H (frameCollisions ?p) post)"
    by (rule Cons.IH [OF d c2])
  also have "\<dots> = (p\<lparr>collisions := pre @ cleaned (frameCollisions p) (x # post)\<rparr>,
      evs @ exit_log H (frameCollisions p) (x # post))"
    by (simp add: x cleaned_Cons [of "frameCollisions p" "(g, c)" post]
        exit_log_Cons [of H "frameCollisions p" "(g, c)" post])
  finally show ?case .
qed

lemma cleanOldCollisions_eq:
  "distinct (map fst (collisions p)) \<Longrightarrow>
   cleanOldCollisions H p =
     (p\<lparr>collisions := cleaned (frameCollisions p) (collisions p)\<rparr>,
      exit_log H (frameCollisions p) (collisions p))"
  using clean_fold [of "[]" "collisions p" p H "[]"] by (simp add: cleanOldCollisions_def)

lemma map_of_cleaned:
  "distinct (map fst cm) \<Longrightarrow>
   map_of (cleaned fm cm) g =
     (case map_of cm g of None \<Rightarrow> None
      | Some c \<Rightarrow> if kept fm g c = [] then None else Some (c\<lparr>others := kept fm g c\<rparr>))"
proof (induction cm)
  case Nil
  show ?case by (simp add: cleaned_def)
next
  case (Cons x cm)
  obtain k c where x: "x = (k, c)" by (cases x)
  have k: "k \<notin> fst ` set cm" and d: "distinct (map fst cm)" using Cons.prems x by auto
  have none: "map_of (cleaned fm cm) k = None"
    using k cleaned_keys [of fm cm] by (auto simp: map_of_eq_None_iff)
  show ?case
    using Cons.IH [OF d] none
    by (simp add: x cleaned_Cons [of fm "(k, c)" cm] cleaned_single map_add_def)
qed

lemma others_of_cleaned:
  "distinct (map fst cm) \<Longrightarrow>
   others_of (cleaned fm cm) g = filter (in_frame fm g) (others_of cm g)"
  by (simp add: others_of_def map_of_cleaned kept_def split: option.splits)

text \<open>
  C1. A call of \<open>cleanOldCollisions\<close> on a provider whose persistent map has one record per
  guid: every other of a persistent record that the transient record of the same guid does
  not list is no longer listed afterwards; the events fired are, for each such other of
  each record, one block of exit events and nothing else; the block is \<open>triggerleave\<close> on
  the owner's collision component and on the other's rigidbody component (each if present)
  and never \<open>collisionend\<close> when the owner is a trigger, it is \<open>collisionend\<close> on the owner's
  rigidbody and collision components (each if present) when neither is a trigger, and it is
  empty when only the other is a trigger; afterwards a record lists the others that were
  kept, and it is deleted exactly when none was kept.
\<close>

theorem cleanOldCollisions_exit_notifications:
  assumes "distinct (map fst (collisions p))"
  shows
   "(\<forall>(g, c) \<in> set (collisions p). \<forall>oth \<in> set (others c).
        \<not> in_frame (frameCollisions p) g oth \<longrightarrow>
        oth \<notin> set (others_of (collisions (fst (cleanOldCollisions H p))) g)) \<and>
    snd (cleanOldCollisions H p) =
      concat (map (\<lambda>(g, c). concat (map (exit_fires H (entity c))
                               (rev (ended (frameCollisions p) g c)))) (collisions p)) \<and>
    (\<forall>e oth. trigger (H e) \<longrightarrow>
       exit_fires H e oth =
         (if collision (H e) \<noteq> None then [Fire (CollisionOf e) ''triggerleave'' (ArgEntity oth)] else []) @
         (if rigidbody (H oth) \<noteq> None then [Fire (RigidbodyOf oth) ''triggerleave'' (ArgEntity e)] else []) \<and>
       (\<forall>f \<in> set (exit_fires H e oth). fire_name f \<noteq> ''collisionend'')) \<and>
    (\<forall>e oth. \<not> trigger (H e) \<and> \<not> trigger (H oth) \<longrightarrow>
       exit_fires H e oth =
         (if rigidbody (H e) \<noteq> None then [Fire (RigidbodyOf e) ''collisionend'' (ArgEntity oth)] else []) @
         (if collision (H e) \<noteq> None then [Fire (CollisionOf e) ''collisionend'' (ArgEntity oth)] else [])) \<and>
    (\<forall>e oth. \<not> trigger (H e) \<and> trigger (H oth) \<longrightarrow> exit_fires H e oth = []) \<and>
    (\<forall>(g, c) \<in> set (collisions p).
       others_of (collisions (fst (cleanOldCollisions H p))) g = kept (frameCollisions p) g c \<and>
       (map_of (collisions (fst (cleanOldCollisions H p))) g = None) =
         (kept (frameCollisions p) g c = []))"
proof -
  note eq = cleanOldCollisions_eq [OF assms, of H]
  have look: "map_of (collisions p) g = Some c" if "(g, c) \<in> set (collisions p)" for g c
    using assms that by simp
  have A: "\<forall>(g, c) \<in> set (collisions p). \<forall>oth \<in> set (others c).
        \<not> in_frame (frameCollisions p) g oth \<longrightarrow>
        oth \<notin> set (others_of (collisions (fst (cleanOldCollisions H p))) g)"
    by (auto simp: eq others_of_cleaned [OF assms])
  have B: "snd (cleanOldCollisions H p) =
      concat (map (\<lambda>(g, c). concat (map (exit_fires H (entity c))
                               (rev (ended (frameCollisions p) g c)))) (collisions p))"
    by (simp add: eq exit_log_def)
  have C: "\<forall>e oth. trigger (H e) \<longrightarrow>
       exit_fires H e oth =
         (if collision (H e) \<noteq> None then [Fire (CollisionOf e) ''triggerleave'' (ArgEntity oth)] else []) @
         (if rigidbody (H oth) \<noteq> None then [Fire (RigidbodyOf oth) ''triggerleave'' (ArgEntity e)] else []) \<and>
       (\<forall>f \<in> set (exit_fires H e oth). fire_name f \<noteq> ''collisionend'')"
    by (auto simp: exit_fires_def)
  have D: "\<forall>e oth. \<not> trigger (H e) \<and> \<not> trigger (H oth) \<longrightarrow>
       exit_fires H e oth =
         (if rigidbody (H e) \<noteq> None then [Fire (RigidbodyOf e) ''collisionend'' (ArgEntity oth)] else []) @
         (if collision (H e) \<noteq> None then [Fire (CollisionOf e) ''collisionend'' (ArgEntity oth)] else [])"
    by (simp add: exit_fires_def)
  have E: "\<forall>e oth. \<not> trigger (H e) \<and> trigger (H oth) \<longrightarrow> exit_fires H e oth = []"
    by (simp add: exit_fires_def)
  have F: "\<forall>(g, c) \<in> set (collisions p).
       others_of (collisions (fst (cleanOldCollisions H p))) g = kept (frameCollisions p) g c \<and>
       (map_of (collisions (fst (cleanOldCollisions H p))) g = None) =
         (kept (frameCollisions p) g c = [])"
    using look
    by (auto simp: eq others_of_cleaned [OF assms] map_of_cleaned [OF assms] kept_def others_of_def
        split: if_splits)
  from A B C D E F show ?thesis by blast
qed

theorem cleanOldCollisions_exit_notifications_witness:
  "distinct (map fst (collisions demo_provider)) \<and>
   snd (cleanOldCollisions scene demo_provider) =
     [Fire (CollisionOf 0) ''triggerleave'' (ArgEntity 1),
      Fire (RigidbodyOf 1) ''triggerleave'' (ArgEntity 0)] \<and>
   map_of (collisions (fst (cleanOldCollisions scene demo_provider))) ''guid-trigger'' = None \<and>
   others_of (collisions (fst (cleanOldCollisions scene demo_provider))) ''guid-ball'' = [2] \<and>
   0 \<notin> set (others_of (collisions (fst (cleanOldCollisions scene demo_provider))) ''guid-ball'')"
proof -
  have d: "distinct (map fst (collisions demo_provider))"
    by (simp add: demo_provider_def)
  note t = cleanOldCollisions_exit_notifications [OF d, of scene]
  have m1: "(''guid-trigger'', \<lparr>others = [1], entity = 0\<rparr>) \<in> set (collisions demo_provider)"
    by (simp add: demo_provider_def)
  have m2: "(''guid-ball'', \<lparr>others = [2, 0], entity = 1\<rparr>) \<in> set (collisions demo_provider)"
    by (simp add: demo_provider_def)
  have k1: "kept (frameCollisions demo_provider) ''guid-trigger'' \<lparr>others = [1], entity = 0\<rparr> = []"
    by (simp add: kept_def in_frame_def others_of_def demo_provider_def)
  have k2: "kept (frameCollisions demo_provider) ''guid-ball'' \<lparr>others = [2, 0], entity = 1\<rparr> = [2]"
    by (simp add: kept_def in_frame_def others_of_def demo_provider_def)
  have e1: "ended (frameCollisions demo_provider) ''guid-trigger'' \<lparr>others = [1], entity = 0\<rparr> = [1]"
    by (simp add: ended_def in_frame_def others_of_def demo_provider_def)
  have e2: "ended (frameCollisions demo_provider) ''guid-ball'' \<lparr>others = [2, 0], entity = 1\<rparr> = [0]"
    by (simp add: ended_def in_frame_def others_of_def demo_provider_def)
  have x1: "exit_fires scene 0 1 =
     [Fire (CollisionOf 0) ''triggerleave'' (ArgEntity 1),
      Fire (RigidbodyOf 1) ''triggerleave'' (ArgEntity 0)]"
    by (simp add: exit_fires_def scene_def)
  have x2: "exit_fires scene 1 0 = []"
    by (simp add: exit_fires_def scene_def)
  from t have fires: "snd (cleanOldCollisions scene demo_provider) =
      concat (map (\<lambda>(g, c). concat (map (exit_fires scene (entity c))
         (rev (ended (frameCollisions demo_provider) g c)))) (collisions demo_provider))"
    by blast
  have r1: "snd (cleanOldCollisions scene demo_provider) =
     [Fire (CollisionOf 0) ''triggerleave'' (ArgEntity 1),
      Fire (RigidbodyOf 1) ''triggerleave'' (ArgEntity 0)]"
    unfolding fires using e1 e2 x1 x2 by (simp add: demo_provider_def)
  from t have recs: "\<forall>(g, c) \<in> set (collisions demo_provider).
       others_of (collisions (fst (cleanOldCollisions scene demo_provider))) g =
         kept (frameCollisions demo_provider) g c \<and>
       (map_of (collisions (fst (cleanOldCollisions scene demo_provider))) g = None) =
         (kept (frameCollisions demo_provider) g c = [])"
    by blast
  from bspec [OF recs m1] k1
  have r2: "map_of (collisions (fst (cleanOldCollisions scene demo_provider))) ''guid-trigger'' = None"
    by simp
  from bspec [OF recs m2] k2
  have r3: "others_of (collisions (fst (cleanOldCollisions scene demo_provider))) ''guid-ball'' = [2]"
    by simp
  from t have gone: "\<forall>(g, c) \<in> set (collisions demo_provider). \<forall>oth \<in> set (others c).
        \<not> in_frame (frameCollisions demo_provider) g oth \<longrightarrow>
        oth \<notin> set (others_of (collisions (fst (cleanOldCollisions scene demo_provider))) g)"
    by blast
  have nf: "\<not> in_frame (frameCollisions demo_provider) ''guid-ball'' 0"
    by (simp add: in_frame_def others_of_def demo_provider_def)
  from bspec [OF gone m2] nf
  have r4: "0 \<notin> set (others_of (collisions (fst (cleanOldCollisions scene demo_provider))) ''guid-ball'')"
    by simp
  from d r1 r2 r3 r4 show ?thesis by blast
qed

subsection \<open>The invariants\<close>

lemma set_update_subset: "set (AList.update g v cm) \<subseteq> insert (g, v) (set cm)"
  by (induction cm) auto

lemma store_no_duplicates:
  assumes "no_duplicates p"
  shows "no_duplicates (snd (storeCollision H p e oth))"
proof -
  let ?g = "getGuid (H e)"
  let ?c = "case map_of (collisions p) ?g of Some c \<Rightarrow> c | None \<Rightarrow> \<lparr>others = [], entity = e\<rparr>"
  let ?c' = "if oth \<in> set (others ?c) then ?c else ?c\<lparr>others := others ?c @ [oth]\<rparr>"
  have dc: "distinct (others ?c)"
    using assms by (auto simp: no_duplicates_def split: option.splits dest: map_of_SomeD)
  have dc': "distinct (others ?c')" using dc by simp
  have col: "collisions (snd (storeCollision H p e oth)) = AList.update ?g ?c' (collisions p)"
    by (simp add: store_collisions Let_def)
  have keys: "distinct (map fst (AList.update ?g ?c' (collisions p)))"
    using assms by (simp add: no_duplicates_def distinct_update)
  have recs: "\<forall>(g, c) \<in> set (AList.update ?g ?c' (collisions p)). distinct (others c)"
    using set_update_subset [of ?g ?c' "collisions p"] dc' assms
    by (fastforce simp: no_duplicates_def)
  show ?thesis unfolding no_duplicates_def col using keys recs by blast
qed

lemma store_no_empty:
  assumes "no_empty p"
  shows "no_empty (snd (storeCollision H p e oth))"
proof -
  let ?g = "getGuid (H e)"
  let ?c = "case map_of (collisions p) ?g of Some c \<Rightarrow> c | None \<Rightarrow> \<lparr>others = [], entity = e\<rparr>"
  let ?c' = "if oth \<in> set (others ?c) then ?c else ?c\<lparr>others := others ?c @ [oth]\<rparr>"
  have ne: "others ?c' \<noteq> []" by auto
  have col: "collisions (snd (storeCollision H p e oth)) = AList.update ?g ?c' (collisions p)"
    by (simp add: store_collisions Let_def)
  show ?thesis
    unfolding no_empty_def col
    using set_update_subset [of ?g ?c' "collisions p"] ne assms
    by (fastforce simp: no_empty_def)
qed

lemma cleaned_records:
  "(g, c) \<in> set (cleaned fm cm) \<Longrightarrow>
   \<exists>c0. (g, c0) \<in> set cm \<and> c = c0\<lparr>others := kept fm g c0\<rparr> \<and> kept fm g c0 \<noteq> []"
  by (auto simp: cleaned_def split: if_splits)

lemma cleaned_distinct_keys: "distinct (map fst cm) \<Longrightarrow> distinct (map fst (cleaned fm cm))"
proof (induction cm)
  case Nil
  show ?case by (simp add: cleaned_def)
next
  case (Cons x cm)
  obtain g c where x: "x = (g, c)" by (cases x)
  have "g \<notin> fst ` set (cleaned fm cm)"
    using Cons.prems x cleaned_keys [of fm cm] by auto
  then show ?case
    using Cons x by (simp add: cleaned_Cons [of fm "(g, c)" cm] cleaned_single)
qed

lemma clean_no_duplicates:
  assumes "no_duplicates p"
  shows "no_duplicates (fst (cleanOldCollisions H p))"
proof -
  have d: "distinct (map fst (collisions p))" using assms by (simp add: no_duplicates_def)
  have "distinct (others c)" if "(g, c) \<in> set (cleaned (frameCollisions p) (collisions p))" for g c
  proof -
    from cleaned_records [OF that] obtain c0 where
      "(g, c0) \<in> set (collisions p)" "c = c0\<lparr>others := kept (frameCollisions p) g c0\<rparr>" by blast
    then show ?thesis using assms by (auto simp: no_duplicates_def kept_def)
  qed
  then show ?thesis
    using cleaned_distinct_keys [OF d] by (auto simp: no_duplicates_def cleanOldCollisions_eq [OF d])
qed

lemma clean_no_empty:
  assumes "distinct (map fst (collisions p))"
  shows "no_empty (fst (cleanOldCollisions H p))"
  using cleaned_records [of _ _ "frameCollisions p" "collisions p"]
  by (fastforce simp: no_empty_def cleanOldCollisions_eq [OF assms])

subsection \<open>The detection pass, block by block\<close>

lemma trigger_collision_side_state:
  "fst (trigger_collision_side H ev nrf e oth st) =
     (if ev then storeCollision H (snd st) e oth else st)"
  by (simp add: trigger_collision_side_def case_prod_beta)

lemma trigger_collision_side_fires:
  "snd (trigger_collision_side H ev nrf e oth st) =
     (if ev \<and> fst (storeCollision H (snd st) e oth) \<and> \<not> nrf
      then [Fire (CollisionOf e) ''triggerenter'' (ArgEntity oth)] else [])"
  by (simp add: trigger_collision_side_def case_prod_beta)

lemma trigger_body_side_state:
  "fst (trigger_body_side H ev e oth st) =
     (if ev \<and> \<not> fst st then storeCollision H (snd st) oth e else st)"
  by (cases st) (simp add: trigger_body_side_def case_prod_beta)

lemma trigger_body_side_fires:
  "snd (trigger_body_side H ev e oth st) =
     (if ev \<and> (fst st \<or> fst (storeCollision H (snd st) oth e))
      then [Fire (RigidbodyOf e) ''triggerenter'' (ArgEntity oth)] else [])"
  by (simp add: trigger_body_side_def case_prod_beta)

lemma contact_side_state:
  "fst (contact_side H ev e oth cs p) = (if ev then snd (storeCollision H p e oth) else p)"
  by (simp add: contact_side_def case_prod_beta Let_def)

lemma trigger_collision_side_pres:
  assumes "\<And>q x y. Q q \<Longrightarrow> Q (snd (storeCollision H q x y))" "Q (snd st)"
  shows "Q (snd (fst (trigger_collision_side H ev nrf e oth st)))"
  using assms by (simp add: trigger_collision_side_state)

lemma trigger_body_side_pres:
  assumes "\<And>q x y. Q q \<Longrightarrow> Q (snd (storeCollision H q x y))" "Q (snd st)"
  shows "Q (snd (fst (trigger_body_side H ev e oth st)))"
  using assms by (simp add: trigger_body_side_state)

lemma trigger_path_state:
  "fst (trigger_path H n0 n1 e0 e1 p) =
     snd (fst (trigger_body_side H (triggerEvents (rigidbody (H e1))) e1 e0
       (fst (trigger_body_side H (triggerEvents (rigidbody (H e0))) e0 e1
         (fst (trigger_collision_side H (triggerEvents (collision (H e1))) n0 e1 e0
           (fst (trigger_collision_side H (triggerEvents (collision (H e0))) n1 e0 e1 (False, p)))))))))"
  by (simp add: trigger_path_def Let_def case_prod_beta)

lemma trigger_path_pres:
  assumes step: "\<And>q x y. Q q \<Longrightarrow> Q (snd (storeCollision H q x y))" and "Q p"
  shows "Q (fst (trigger_path H n0 n1 e0 e1 p))"
proof -
  let ?s1 = "fst (trigger_collision_side H (triggerEvents (collision (H e0))) n1 e0 e1 (False, p))"
  let ?s2 = "fst (trigger_collision_side H (triggerEvents (collision (H e1))) n0 e1 e0 ?s1)"
  let ?s3 = "fst (trigger_body_side H (triggerEvents (rigidbody (H e0))) e0 e1 ?s2)"
  let ?s4 = "fst (trigger_body_side H (triggerEvents (rigidbody (H e1))) e1 e0 ?s3)"
  have q0: "Q (snd (False, p))" using assms by simp
  have q1: "Q (snd ?s1)" using step q0 by (rule trigger_collision_side_pres)
  have q2: "Q (snd ?s2)" using step q1 by (rule trigger_collision_side_pres)
  have q3: "Q (snd ?s3)" using step q2 by (rule trigger_body_side_pres)
  have q4: "Q (snd ?s4)" using step q3 by (rule trigger_body_side_pres)
  show ?thesis unfolding trigger_path_state by (rule q4)
qed

lemma contact_path_state:
  "fst (contact_path H ge e0 e1 pts p) =
     (if ge \<or> hasContactEvent (H e0) \<or> hasContactEvent (H e1)
      then fst (contact_side H (hasContactEvent (H e1)) e1 e0
             (if hasContactEvent (H e0) \<or> hasContactEvent (H e1)
              then map createReverseContactPointFromAmmo pts else [])
             (fst (contact_side H (hasContactEvent (H e0)) e0 e1
               (if hasContactEvent (H e0) \<or> hasContactEvent (H e1)
                then map createContactPointFromAmmo pts else []) p)))
      else p)"
  by (simp add: contact_path_def Let_def case_prod_beta)

lemma contact_path_pres:
  assumes step: "\<And>q x y. Q q \<Longrightarrow> Q (snd (storeCollision H q x y))" and "Q p"
  shows "Q (fst (contact_path H ge e0 e1 pts p))"
  using assms by (simp add: contact_path_state contact_side_state)

lemma check_manifold_evs:
  "check_manifold H nr ge m (p, evs) =
     (fst (check_manifold H nr ge m (p, [])), evs @ snd (check_manifold H nr ge m (p, [])))"
  by (simp add: check_manifold_def case_prod_beta split: option.splits)

lemma check_manifold_pres:
  assumes step: "\<And>q x y. Q q \<Longrightarrow> Q (snd (storeCollision H q x y))" and "Q p"
  shows "Q (fst (check_manifold H nr ge m (p, evs)))"
proof -
  have t: "Q (fst (trigger_path H n0 n1 e0 e1 p))" for n0 n1 e0 e1
    using step \<open>Q p\<close> by (rule trigger_path_pres)
  have c: "Q (fst (contact_path H ge e0 e1 pts p))" for e0 e1 pts
    using step \<open>Q p\<close> by (rule contact_path_pres)
  show ?thesis
    using t c \<open>Q p\<close>
    by (simp add: check_manifold_def case_prod_beta split: option.splits)
qed

lemma fold_check_pres:
  assumes step: "\<And>q x y. Q q \<Longrightarrow> Q (snd (storeCollision H q x y))"
  shows "Q p \<Longrightarrow> Q (fst (fold (check_manifold H nr ge) ms (p, evs)))"
proof (induction ms arbitrary: p evs)
  case Nil
  then show ?case by simp
next
  case (Cons m ms)
  have "Q (fst (check_manifold H nr ge m (p, evs)))"
    using step Cons.prems by (rule check_manifold_pres)
  then show ?case
    using Cons.IH [of "fst (check_manifold H nr ge m (p, evs))" "snd (check_manifold H nr ge m (p, evs))"]
    by simp
qed

lemma fold_check_events:
  assumes each: "\<And>m q. m \<in> set ms \<Longrightarrow> \<forall>f \<in> set (snd (check_manifold H nr ge m (q, []))). P f"
  shows "\<forall>f \<in> set evs. P f \<Longrightarrow> \<forall>f \<in> set (snd (fold (check_manifold H nr ge) ms (p, evs))). P f"
  using each
proof (induction ms arbitrary: p evs)
  case Nil
  then show ?case by simp
next
  case (Cons m ms)
  have here: "\<forall>f \<in> set (evs @ snd (check_manifold H nr ge m (p, []))). P f"
    using Cons.prems(1) Cons.prems(2) [of m p] by auto
  have rest: "\<And>m' q. m' \<in> set ms \<Longrightarrow> \<forall>f \<in> set (snd (check_manifold H nr ge m' (q, []))). P f"
  proof -
    fix m' q
    assume "m' \<in> set ms"
    then have "m' \<in> set (m # ms)" by simp
    then show "\<forall>f \<in> set (snd (check_manifold H nr ge m' (q, []))). P f"
      by (rule Cons.prems(2))
  qed
  show ?case
    using Cons.IH [OF here rest, of "fst (check_manifold H nr ge m (p, []))"]
    by (simp add: check_manifold_evs [of H nr ge m p evs])
qed

lemma checkForCollisions_state:
  "fst (checkForCollisions H nr ge ms p) =
     fst (cleanOldCollisions H (fst (fold (check_manifold H nr ge) ms (p\<lparr>frameCollisions := []\<rparr>, []))))"
  by (simp add: checkForCollisions_def case_prod_beta)

lemma checkForCollisions_events:
  "snd (checkForCollisions H nr ge ms p) =
     snd (fold (check_manifold H nr ge) ms (p\<lparr>frameCollisions := []\<rparr>, [])) @
     snd (cleanOldCollisions H (fst (fold (check_manifold H nr ge) ms (p\<lparr>frameCollisions := []\<rparr>, []))))"
  by (simp add: checkForCollisions_def case_prod_beta)

subsection \<open>Events of the detection pass\<close>

lemma trigger_path_fires:
  "snd (trigger_path H n0 n1 e0 e1 p) =
     snd (trigger_collision_side H (triggerEvents (collision (H e0))) n1 e0 e1 (False, p)) @
     snd (trigger_collision_side H (triggerEvents (collision (H e1))) n0 e1 e0
       (fst (trigger_collision_side H (triggerEvents (collision (H e0))) n1 e0 e1 (False, p)))) @
     snd (trigger_body_side H (triggerEvents (rigidbody (H e0))) e0 e1
       (fst (trigger_collision_side H (triggerEvents (collision (H e1))) n0 e1 e0
         (fst (trigger_collision_side H (triggerEvents (collision (H e0))) n1 e0 e1 (False, p)))))) @
     snd (trigger_body_side H (triggerEvents (rigidbody (H e1))) e1 e0
       (fst (trigger_body_side H (triggerEvents (rigidbody (H e0))) e0 e1
         (fst (trigger_collision_side H (triggerEvents (collision (H e1))) n0 e1 e0
           (fst (trigger_collision_side H (triggerEvents (collision (H e0))) n1 e0 e1 (False, p))))))))"
  by (simp add: trigger_path_def Let_def case_prod_beta)

lemma trigger_path_names:
  "f \<in> set (snd (trigger_path H n0 n1 e0 e1 p)) \<Longrightarrow> fire_name f = ''triggerenter''"
  unfolding trigger_path_fires
  by (auto simp: trigger_collision_side_fires trigger_body_side_fires split: if_splits)

lemma contact_side_participants:
  "f \<in> set (snd (contact_side H ev e oth cs p)) \<Longrightarrow> set (participants f) \<subseteq> {e, oth}"
  by (auto simp: contact_side_def case_prod_beta Let_def createContactResult_def split: if_splits)

lemma global_contact_participants:
  "f \<in> set (global_contact_fires ge e0 e1 pts) \<Longrightarrow> set (participants f) \<subseteq> {e0, e1}"
  by (auto simp: global_contact_fires_def createSingleContactResult_def split: if_splits)

lemma contact_path_participants:
  "f \<in> set (snd (contact_path H ge e0 e1 pts p)) \<Longrightarrow> set (participants f) \<subseteq> {e0, e1}"
proof -
  assume f: "f \<in> set (snd (contact_path H ge e0 e1 pts p))"
  have "\<exists>ev cs q ev' cs' q'.
      f \<in> set (global_contact_fires ge e0 e1 pts) \<or>
      f \<in> set (snd (contact_side H ev e0 e1 cs q)) \<or>
      f \<in> set (snd (contact_side H ev' e1 e0 cs' q'))"
    using f unfolding contact_path_def Let_def case_prod_beta
    by (cases "ge \<or> hasContactEvent (H e0) \<or> hasContactEvent (H e1)") (simp_all, blast)
  then obtain ev cs q ev' cs' q' where
      "f \<in> set (global_contact_fires ge e0 e1 pts) \<or>
       f \<in> set (snd (contact_side H ev e0 e1 cs q)) \<or>
       f \<in> set (snd (contact_side H ev' e1 e0 cs' q'))" by blast
  then show ?thesis
    using global_contact_participants [of f ge e0 e1 pts]
      contact_side_participants [of f H ev e0 e1 cs q]
      contact_side_participants [of f H ev' e1 e0 cs' q']
    by blast
qed

lemma exit_fires_trigger:
  "f \<in> set (exit_fires H e oth) \<Longrightarrow> \<exists>x \<in> set (participants f). trigger (H x) \<Longrightarrow>
   fire_name f = ''triggerleave''"
  by (auto simp: exit_fires_def split: if_splits)

lemma clean_others_from_exit:
  "f \<in> set (snd (clean_others H fc ent n os)) \<Longrightarrow> \<exists>oth. f \<in> set (exit_fires H ent oth)"
proof (induction n arbitrary: os)
  case 0
  then show ?case by simp
next
  case (Suc i)
  then show ?case
    by (auto simp: case_prod_beta Let_def split: if_splits)
qed

lemma clean_record_events:
  assumes "\<And>e oth. \<forall>f \<in> set (exit_fires H e oth). P f" "\<forall>f \<in> set evs. P f"
  shows "\<forall>f \<in> set (snd (clean_record H g (p, evs))). P f"
proof
  fix f
  assume f: "f \<in> set (snd (clean_record H g (p, evs)))"
  show "P f"
  proof (cases "map_of (collisions p) g")
    case None
    then show ?thesis using f assms(2) by (simp add: clean_record_def)
  next
    case (Some c)
    from f Some have "f \<in> set evs \<or>
        f \<in> set (snd (clean_others H (map_of (frameCollisions p) g) (entity c)
                        (length (others c)) (others c)))"
      by (simp add: clean_record_def case_prod_beta Let_def)
    then show ?thesis
    proof
      assume "f \<in> set evs"
      then show ?thesis using assms(2) by blast
    next
      assume "f \<in> set (snd (clean_others H (map_of (frameCollisions p) g) (entity c)
                        (length (others c)) (others c)))"
      then obtain oth where "f \<in> set (exit_fires H (entity c) oth)"
        using clean_others_from_exit by blast
      then show ?thesis using assms(1) by blast
    qed
  qed
qed

lemma fold_clean_events:
  assumes ex: "\<And>e oth. \<forall>f \<in> set (exit_fires H e oth). P f"
  shows "\<forall>f \<in> set evs. P f \<Longrightarrow> \<forall>f \<in> set (snd (fold (clean_record H) gs (p, evs))). P f"
proof (induction gs arbitrary: p evs)
  case Nil
  then show ?case by simp
next
  case (Cons g gs)
  obtain q evs' where st: "clean_record H g (p, evs) = (q, evs')"
    by (cases "clean_record H g (p, evs)")
  have "\<forall>f \<in> set evs'. P f"
    using clean_record_events [of H P evs g p, OF ex Cons.prems] st by simp
  then show ?case using Cons.IH [of evs' q] st by simp
qed

lemma clean_events:
  assumes "\<And>e oth. \<forall>f \<in> set (exit_fires H e oth). P f"
  shows "\<forall>f \<in> set (snd (cleanOldCollisions H p)). P f"
  unfolding cleanOldCollisions_def
  using assms by (rule fold_clean_events) simp

lemma check_pass_no_duplicates:
  assumes "no_duplicates p"
  shows "no_duplicates (fst (checkForCollisions H nr ge ms p))"
proof -
  have start: "no_duplicates (p\<lparr>frameCollisions := []\<rparr>)"
    using assms by (simp add: no_duplicates_def)
  have "no_duplicates (fst (fold (check_manifold H nr ge) ms (p\<lparr>frameCollisions := []\<rparr>, [])))"
    using store_no_duplicates start by (rule fold_check_pres)
  then show ?thesis
    unfolding checkForCollisions_state by (rule clean_no_duplicates)
qed

lemma check_pass_no_empty:
  assumes "no_duplicates p"
  shows "no_empty (fst (checkForCollisions H nr ge ms p))"
proof -
  have start: "no_duplicates (p\<lparr>frameCollisions := []\<rparr>)"
    using assms by (simp add: no_duplicates_def)
  have "no_duplicates (fst (fold (check_manifold H nr ge) ms (p\<lparr>frameCollisions := []\<rparr>, [])))"
    using store_no_duplicates start by (rule fold_check_pres)
  then have "distinct (map fst (collisions (fst (fold (check_manifold H nr ge) ms (p\<lparr>frameCollisions := []\<rparr>, [])))))"
    by (simp add: no_duplicates_def)
  then show ?thesis
    unfolding checkForCollisions_state by (rule clean_no_empty)
qed

text \<open>
  C5. On a provider whose persistent map has no other twice in a record (and one record per
  guid), \<open>storeCollision\<close>, \<open>cleanOldCollisions\<close> and a detection pass each leave such a
  provider; after \<open>cleanOldCollisions\<close> and after a detection pass no persistent record has an
  empty others-list; a detection pass does not depend on the transient map it starts
  from, which it replaces by the empty map before the first manifold; and the provider the
  constructor builds has no duplicates.
\<close>

theorem bookkeeping_invariants:
  "(no_duplicates p \<longrightarrow>
      no_duplicates (snd (storeCollision H p e oth)) \<and>
      no_duplicates (fst (cleanOldCollisions H p)) \<and>
      no_duplicates (fst (checkForCollisions H nr ge ms p)) \<and>
      no_empty (fst (cleanOldCollisions H p)) \<and>
      no_empty (fst (checkForCollisions H nr ge ms p))) \<and>
   (\<forall>fm. checkForCollisions H nr ge ms (p\<lparr>frameCollisions := fm\<rparr>) =
      (fst (checkForCollisions H nr ge ms (p\<lparr>frameCollisions := []\<rparr>)),
       snd (checkForCollisions H nr ge ms (p\<lparr>frameCollisions := []\<rparr>)))) \<and>
   no_duplicates new_provider"
proof -
  have A: "no_duplicates p \<longrightarrow>
      no_duplicates (snd (storeCollision H p e oth)) \<and>
      no_duplicates (fst (cleanOldCollisions H p)) \<and>
      no_duplicates (fst (checkForCollisions H nr ge ms p)) \<and>
      no_empty (fst (cleanOldCollisions H p)) \<and>
      no_empty (fst (checkForCollisions H nr ge ms p))"
  proof
    assume inv: "no_duplicates p"
    then have d: "distinct (map fst (collisions p))" by (simp add: no_duplicates_def)
    note store_no_duplicates [OF inv, of H e oth] clean_no_duplicates [OF inv, of H]
      check_pass_no_duplicates [OF inv, of H nr ge ms] clean_no_empty [OF d, of H]
      check_pass_no_empty [OF inv, of H nr ge ms]
    then show "no_duplicates (snd (storeCollision H p e oth)) \<and>
      no_duplicates (fst (cleanOldCollisions H p)) \<and>
      no_duplicates (fst (checkForCollisions H nr ge ms p)) \<and>
      no_empty (fst (cleanOldCollisions H p)) \<and>
      no_empty (fst (checkForCollisions H nr ge ms p))" by blast
  qed
  have B: "\<forall>fm. checkForCollisions H nr ge ms (p\<lparr>frameCollisions := fm\<rparr>) =
      (fst (checkForCollisions H nr ge ms (p\<lparr>frameCollisions := []\<rparr>)),
       snd (checkForCollisions H nr ge ms (p\<lparr>frameCollisions := []\<rparr>)))"
    by (simp add: checkForCollisions_def)
  have C: "no_duplicates new_provider"
    by (simp add: no_duplicates_def new_provider_def)
  from A B C show ?thesis by blast
qed

theorem bookkeeping_invariants_witness:
  "no_duplicates demo_provider \<and>
   no_duplicates (snd (storeCollision scene demo_provider 1 2)) \<and>
   no_duplicates (fst (cleanOldCollisions scene demo_provider)) \<and>
   no_duplicates (fst (checkForCollisions scene 4 False [demo_manifold] demo_provider)) \<and>
   no_empty (fst (cleanOldCollisions scene demo_provider)) \<and>
   no_empty (fst (checkForCollisions scene 4 False [demo_manifold] demo_provider)) \<and>
   checkForCollisions scene 4 False [demo_manifold] (demo_provider\<lparr>frameCollisions := collisions demo_provider\<rparr>) =
     (fst (checkForCollisions scene 4 False [demo_manifold] (demo_provider\<lparr>frameCollisions := []\<rparr>)),
      snd (checkForCollisions scene 4 False [demo_manifold] (demo_provider\<lparr>frameCollisions := []\<rparr>)))"
proof -
  have d: "no_duplicates demo_provider"
    by (simp add: no_duplicates_def demo_provider_def)
  from d bookkeeping_invariants [of demo_provider scene 1 2 4 False "[demo_manifold]"]
  show ?thesis by blast
qed

text \<open>
  C3. In a detection pass (the manifolds, then \<open>cleanOldCollisions\<close>) over bodies whose
  no-response flag agrees with \<open>entity.trigger\<close>, every event fired that is about a trigger
  entity, as the owner of the component or as the entity the argument names, is
  \<open>triggerenter\<close> or \<open>triggerleave\<close>; so \<open>collisionstart\<close>, \<open>collisionend\<close> and \<open>contact\<close> are
  never fired for a pair with a trigger. And a manifold with a flagged body fires nothing
  but \<open>triggerenter\<close>, whatever the flags of other bodies.
\<close>

theorem trigger_pairs_fire_only_trigger_events:
  assumes "\<forall>m \<in> set ms. flags_agree H nr (getBody0 m) \<and> flags_agree H nr (getBody1 m)"
  shows
   "(\<forall>f \<in> set (snd (checkForCollisions H nr ge ms p)).
       (\<exists>e \<in> set (participants f). trigger (H e)) \<longrightarrow>
       fire_name f = ''triggerenter'' \<or> fire_name f = ''triggerleave'') \<and>
    (\<forall>m \<in> set ms. \<forall>q.
       noresponse nr (getBody0 m) \<or> noresponse nr (getBody1 m) \<longrightarrow>
       (\<forall>f \<in> set (snd (check_manifold H nr ge m (q, []))). fire_name f = ''triggerenter''))"
proof -
  let ?P = "\<lambda>f. (\<exists>e \<in> set (participants f). trigger (H e)) \<longrightarrow>
       fire_name f = ''triggerenter'' \<or> fire_name f = ''triggerleave''"
  have flagged: "\<forall>f \<in> set (snd (check_manifold H nr ge m (q, []))). fire_name f = ''triggerenter''"
    if "noresponse nr (getBody0 m) \<or> noresponse nr (getBody1 m)" for m q
    using that trigger_path_names [of _ H]
    by (auto simp: check_manifold_def case_prod_beta split: option.splits if_splits)
  have each: "\<forall>f \<in> set (snd (check_manifold H nr ge m (q, []))). ?P f" if m: "m \<in> set ms" for m q
  proof (cases "noresponse nr (getBody0 m) \<or> noresponse nr (getBody1 m)")
    case True
    then show ?thesis using flagged [of m q] by simp
  next
    case False
    show ?thesis
    proof
      fix f
      assume f: "f \<in> set (snd (check_manifold H nr ge m (q, [])))"
      then obtain e0 e1 where e: "body_entity (getBody0 m) = Some e0" "body_entity (getBody1 m) = Some e1"
        and fc: "f \<in> set (snd (contact_path H ge e0 e1 (contactPoints m) q))"
        using False
        by (auto simp: check_manifold_def case_prod_beta split: option.splits if_splits)
      have "\<not> trigger (H e0)" "\<not> trigger (H e1)"
        using assms m e False by (auto simp: flags_agree_def)
      moreover have "set (participants f) \<subseteq> {e0, e1}"
        using fc by (rule contact_path_participants)
      ultimately show "?P f" by blast
    qed
  qed
  have detect: "\<forall>f \<in> set (snd (fold (check_manifold H nr ge) ms (p\<lparr>frameCollisions := []\<rparr>, []))). ?P f"
    by (rule fold_check_events [where P = ?P, OF each]) simp_all
  have ex: "\<forall>f \<in> set (exit_fires H e oth). ?P f" for e oth
    using exit_fires_trigger [of _ H e oth] by blast
  have clean: "\<forall>f \<in> set (snd (cleanOldCollisions H q)). ?P f" for q
    by (rule clean_events [where P = ?P, OF ex])
  have all: "\<forall>f \<in> set (snd (checkForCollisions H nr ge ms p)). ?P f"
    unfolding checkForCollisions_events using detect clean by auto
  from all flagged show ?thesis by blast
qed

theorem trigger_pairs_fire_only_trigger_events_witness:
  "flags_agree scene 4 (getBody0 demo_manifold) \<and>
   flags_agree scene 4 (getBody1 demo_manifold) \<and>
   noresponse 4 (getBody1 demo_manifold) \<and>
   trigger (scene 0) \<and>
   snd (checkForCollisions scene 4 False [demo_manifold] new_provider) =
     [Fire (CollisionOf 0) ''triggerenter'' (ArgEntity 1),
      Fire (RigidbodyOf 1) ''triggerenter'' (ArgEntity 0)] \<and>
   list_all (\<lambda>f. fire_name f = ''triggerenter'' \<or> fire_name f = ''triggerleave'')
     (snd (checkForCollisions scene 4 False [demo_manifold] new_provider)) \<and>
   list_all (\<lambda>f. fire_name f = ''triggerenter'')
     (snd (check_manifold scene 4 False demo_manifold (demo_provider, [])))"
proof -
  have a0: "flags_agree scene 4 (getBody0 demo_manifold)"
    by (simp add: flags_agree_def demo_manifold_def noresponse_def scene_def)
  have a1: "flags_agree scene 4 (getBody1 demo_manifold)"
    by (simp add: flags_agree_def demo_manifold_def noresponse_def scene_def)
  have n1: "noresponse 4 (getBody1 demo_manifold)"
    by (simp add: demo_manifold_def noresponse_def)
  have t0: "trigger (scene 0)" by (simp add: scene_def)
  have hyp: "\<forall>m \<in> set [demo_manifold]. flags_agree scene 4 (getBody0 m) \<and> flags_agree scene 4 (getBody1 m)"
    using a0 a1 by simp
  note t = trigger_pairs_fire_only_trigger_events [OF hyp, of False]
  have evs: "snd (checkForCollisions scene 4 False [demo_manifold] new_provider) =
     [Fire (CollisionOf 0) ''triggerenter'' (ArgEntity 1),
      Fire (RigidbodyOf 1) ''triggerenter'' (ArgEntity 0)]"
    by code_simp
  have part: "\<exists>e \<in> set (participants f). trigger (scene e)"
    if "f \<in> set (snd (checkForCollisions scene 4 False [demo_manifold] new_provider))" for f
    using that t0 unfolding evs by auto
  from t [of new_provider] part
  have all: "list_all (\<lambda>f. fire_name f = ''triggerenter'' \<or> fire_name f = ''triggerleave'')
     (snd (checkForCollisions scene 4 False [demo_manifold] new_provider))"
    unfolding list_all_iff by blast
  from t [of new_provider] n1
  have one: "list_all (\<lambda>f. fire_name f = ''triggerenter'')
     (snd (check_manifold scene 4 False demo_manifold (demo_provider, [])))"
    unfolding list_all_iff by simp
  from a0 a1 n1 t0 evs all one show ?thesis by blast
qed

subsection \<open>The trigger branch\<close>

lemma store_keeps_listed:
  "y \<in> set (others_of (collisions q) g) \<Longrightarrow>
   y \<in> set (others_of (collisions (snd (storeCollision H q a b))) g)"
  by (auto simp: store_collisions_others)

lemma store_true_fresh:
  "fst (storeCollision H q x y) \<Longrightarrow> y \<notin> set (others_of (collisions q) (getGuid (H x)))"
  by (simp add: store_fst)

lemma store_lists:
  "y \<in> set (others_of (collisions (snd (storeCollision H q x y))) (getGuid (H x)))"
  by (simp add: store_collisions_others)

lemma trigger_branch_events:
  fixes H p e0 e1 n0 n1
  defines "p' \<equiv> fst (trigger_path H n0 n1 e0 e1 p)"
  assumes f: "f \<in> set (snd (trigger_path H n0 n1 e0 e1 p))"
  shows "(f = Fire (CollisionOf e0) ''triggerenter'' (ArgEntity e1) \<and> \<not> n1 \<and> newly_listed H p p' e0 e1) \<or>
         (f = Fire (CollisionOf e1) ''triggerenter'' (ArgEntity e0) \<and> \<not> n0 \<and> newly_listed H p p' e1 e0) \<or>
         ((f = Fire (RigidbodyOf e0) ''triggerenter'' (ArgEntity e1) \<or>
           f = Fire (RigidbodyOf e1) ''triggerenter'' (ArgEntity e0)) \<and>
          (newly_listed H p p' e0 e1 \<or> newly_listed H p p' e1 e0))"
proof -
  let ?L = "\<lambda>q x y. y \<in> set (others_of (collisions q) (getGuid (H x)))"
  let ?N = "newly_listed H p p' e0 e1 \<or> newly_listed H p p' e1 e0"
  let ?a0 = "triggerEvents (collision (H e0))"
  let ?a1 = "triggerEvents (collision (H e1))"
  let ?b0 = "triggerEvents (rigidbody (H e0))"
  let ?b1 = "triggerEvents (rigidbody (H e1))"
  let ?s0 = "(False, p)"
  let ?s1 = "fst (trigger_collision_side H ?a0 n1 e0 e1 ?s0)"
  let ?s2 = "fst (trigger_collision_side H ?a1 n0 e1 e0 ?s1)"
  let ?s3 = "fst (trigger_body_side H ?b0 e0 e1 ?s2)"
  let ?s4 = "fst (trigger_body_side H ?b1 e1 e0 ?s3)"
  have p': "p' = snd ?s4" by (simp add: p'_def trigger_path_state)
  have keep: "\<And>q a b. ?L q x y \<Longrightarrow> ?L (snd (storeCollision H q a b)) x y" for x y
    by (rule store_keeps_listed)
  have m01: "?L p x y \<Longrightarrow> ?L (snd ?s1) x y" for x y
    using trigger_collision_side_pres [of "\<lambda>q. ?L q x y" H ?s0, OF keep] by simp
  have m12: "?L (snd ?s1) x y \<Longrightarrow> ?L (snd ?s2) x y" for x y
    using trigger_collision_side_pres [of "\<lambda>q. ?L q x y" H ?s1, OF keep] by simp
  have m23: "?L (snd ?s2) x y \<Longrightarrow> ?L (snd ?s3) x y" for x y
    using trigger_body_side_pres [of "\<lambda>q. ?L q x y" H ?s2, OF keep] by simp
  have m34: "?L (snd ?s3) x y \<Longrightarrow> ?L p' x y" for x y
    unfolding p' using trigger_body_side_pres [of "\<lambda>q. ?L q x y" H ?s3, OF keep] by simp
  have up1: "?L (snd ?s1) x y \<Longrightarrow> ?L p' x y" for x y using m12 m23 m34 by blast
  have up2: "?L (snd ?s2) x y \<Longrightarrow> ?L p' x y" for x y using m23 m34 by blast
  have up3: "?L (snd ?s3) x y \<Longrightarrow> ?L p' x y" for x y using m34 by blast
  have dn1: "\<not> ?L (snd ?s1) x y \<Longrightarrow> \<not> ?L p x y" for x y using m01 by blast
  have dn2: "\<not> ?L (snd ?s2) x y \<Longrightarrow> \<not> ?L p x y" for x y using m01 m12 by blast
  have dn3: "\<not> ?L (snd ?s3) x y \<Longrightarrow> \<not> ?L p x y" for x y using m01 m12 m23 by blast
  \<comment> \<open>a successful call at each of the four places gives a newly listed pair\<close>
  have c1: "newly_listed H p p' e0 e1" if "?a0" "fst (storeCollision H p e0 e1)"
  proof -
    have "\<not> ?L p e0 e1" using that(2) by (rule store_true_fresh)
    moreover have "?L (snd ?s1) e0 e1"
      using that(1) by (simp add: trigger_collision_side_state store_lists)
    ultimately show ?thesis using up1 by (simp add: newly_listed_def)
  qed
  have c2: "newly_listed H p p' e1 e0" if "?a1" "fst (storeCollision H (snd ?s1) e1 e0)"
  proof -
    have "\<not> ?L (snd ?s1) e1 e0" using that(2) by (rule store_true_fresh)
    then have "\<not> ?L p e1 e0" by (rule dn1)
    moreover have "?L (snd ?s2) e1 e0"
      using that(1) by (simp add: trigger_collision_side_state store_lists)
    ultimately show ?thesis using up2 by (simp add: newly_listed_def)
  qed
  have c3: "newly_listed H p p' e1 e0" if "?b0" "\<not> fst ?s2" "fst (storeCollision H (snd ?s2) e1 e0)"
  proof -
    have "\<not> ?L (snd ?s2) e1 e0" using that(3) by (rule store_true_fresh)
    then have "\<not> ?L p e1 e0" by (rule dn2)
    moreover have "?L (snd ?s3) e1 e0"
      using that(1,2) by (simp add: trigger_body_side_state store_lists)
    ultimately show ?thesis using up3 by (simp add: newly_listed_def)
  qed
  have c4: "newly_listed H p p' e0 e1" if "?b1" "\<not> fst ?s3" "fst (storeCollision H (snd ?s3) e0 e1)"
  proof -
    have "\<not> ?L (snd ?s3) e0 e1" using that(3) by (rule store_true_fresh)
    then have "\<not> ?L p e0 e1" by (rule dn3)
    moreover have "?L p' e0 e1"
      unfolding p' using that(1,2) by (simp add: trigger_body_side_state store_lists)
    ultimately show ?thesis by (simp add: newly_listed_def)
  qed
  \<comment> \<open>the shared flag is true only after a successful call\<close>
  have g1: "fst ?s1 \<Longrightarrow> ?N"
    using c1 by (simp add: trigger_collision_side_state split: if_splits)
  have g2: "fst ?s2 \<Longrightarrow> ?N"
    using c2 g1 by (simp add: trigger_collision_side_state split: if_splits)
  have g3: "fst ?s3 \<Longrightarrow> ?N"
    using c3 g2 by (auto simp add: trigger_body_side_state split: if_splits)
  from f have "f \<in> set (snd (trigger_collision_side H ?a0 n1 e0 e1 ?s0)) \<or>
      f \<in> set (snd (trigger_collision_side H ?a1 n0 e1 e0 ?s1)) \<or>
      f \<in> set (snd (trigger_body_side H ?b0 e0 e1 ?s2)) \<or>
      f \<in> set (snd (trigger_body_side H ?b1 e1 e0 ?s3))"
    unfolding trigger_path_fires by simp
  then show ?thesis
  proof (elim disjE)
    assume "f \<in> set (snd (trigger_collision_side H ?a0 n1 e0 e1 ?s0))"
    then have "f = Fire (CollisionOf e0) ''triggerenter'' (ArgEntity e1)" "\<not> n1" "?a0"
        "fst (storeCollision H p e0 e1)"
      by (simp_all add: trigger_collision_side_fires split: if_splits)
    then show ?thesis using c1 by blast
  next
    assume "f \<in> set (snd (trigger_collision_side H ?a1 n0 e1 e0 ?s1))"
    then have "f = Fire (CollisionOf e1) ''triggerenter'' (ArgEntity e0)" "\<not> n0" "?a1"
        "fst (storeCollision H (snd ?s1) e1 e0)"
      by (simp_all add: trigger_collision_side_fires split: if_splits)
    then show ?thesis using c2 by blast
  next
    assume "f \<in> set (snd (trigger_body_side H ?b0 e0 e1 ?s2))"
    then have "f = Fire (RigidbodyOf e0) ''triggerenter'' (ArgEntity e1)" "?b0"
        "fst ?s2 \<or> fst (storeCollision H (snd ?s2) e1 e0)"
      by (simp_all add: trigger_body_side_fires split: if_splits)
    then show ?thesis using c3 g2 by blast
  next
    assume "f \<in> set (snd (trigger_body_side H ?b1 e1 e0 ?s3))"
    then have "f = Fire (RigidbodyOf e1) ''triggerenter'' (ArgEntity e0)" "?b1"
        "fst ?s3 \<or> fst (storeCollision H (snd ?s3) e0 e1)"
      by (simp_all add: trigger_body_side_fires split: if_splits)
    then show ?thesis using c4 g3 by blast
  qed
qed

text \<open>
  C4, as the code has it. On the trigger branch of a manifold every event fired is
  \<open>triggerenter\<close>. The collision-component firing for an entity happens only when the
  opposite body is not flagged no-response and the \<open>storeCollision\<close> call for (entity, other)
  returned true, so that the pair is newly listed by this manifold. The rigidbody-component
  firing happens only when the flag shared by the four blocks is true, that is when a
  \<open>storeCollision\<close> call for the pair, in one order or the other, returned true in this
  manifold; it does not look at the flag of the opposite body.
\<close>

theorem trigger_branch_triggerenter:
  assumes "body_entity (getBody0 m) = Some e0" "body_entity (getBody1 m) = Some e1"
    and "noresponse nr (getBody0 m) \<or> noresponse nr (getBody1 m)"
  shows
   "\<forall>f \<in> set (snd (check_manifold H nr ge m (p, []))).
      fire_name f = ''triggerenter'' \<and>
      ((f = Fire (CollisionOf e0) ''triggerenter'' (ArgEntity e1) \<and>
        \<not> noresponse nr (getBody1 m) \<and>
        newly_listed H p (fst (check_manifold H nr ge m (p, []))) e0 e1) \<or>
       (f = Fire (CollisionOf e1) ''triggerenter'' (ArgEntity e0) \<and>
        \<not> noresponse nr (getBody0 m) \<and>
        newly_listed H p (fst (check_manifold H nr ge m (p, []))) e1 e0) \<or>
       ((f = Fire (RigidbodyOf e0) ''triggerenter'' (ArgEntity e1) \<or>
         f = Fire (RigidbodyOf e1) ''triggerenter'' (ArgEntity e0)) \<and>
        (newly_listed H p (fst (check_manifold H nr ge m (p, []))) e0 e1 \<or>
         newly_listed H p (fst (check_manifold H nr ge m (p, []))) e1 e0)))"
proof (cases "length (contactPoints m) > 0")
  case False
  then show ?thesis using assms by (simp add: check_manifold_def)
next
  case True
  let ?n0 = "noresponse nr (getBody0 m)" and ?n1 = "noresponse nr (getBody1 m)"
  have cm: "check_manifold H nr ge m (p, []) =
      (fst (trigger_path H ?n0 ?n1 e0 e1 p), snd (trigger_path H ?n0 ?n1 e0 e1 p))"
    using assms True by (auto simp add: check_manifold_def case_prod_beta)
  show ?thesis
    unfolding cm fst_conv snd_conv
    using trigger_branch_events [of _ H ?n0 ?n1 e0 e1 p] trigger_path_names [of _ H ?n0 ?n1 e0 e1 p]
    by blast
qed

theorem trigger_branch_triggerenter_witness:
  "body_entity (getBody0 demo_manifold) = Some 1 \<and>
   body_entity (getBody1 demo_manifold) = Some 0 \<and>
   noresponse 4 (getBody1 demo_manifold) \<and>
   Fire (RigidbodyOf 1) ''triggerenter'' (ArgEntity 0)
     \<in> set (snd (check_manifold scene 4 False demo_manifold (new_provider, []))) \<and>
   (newly_listed scene new_provider (fst (check_manifold scene 4 False demo_manifold (new_provider, []))) 1 0 \<or>
    newly_listed scene new_provider (fst (check_manifold scene 4 False demo_manifold (new_provider, []))) 0 1)"
proof -
  have b0: "body_entity (getBody0 demo_manifold) = Some 1" by (simp add: demo_manifold_def)
  have b1: "body_entity (getBody1 demo_manifold) = Some 0" by (simp add: demo_manifold_def)
  have n1: "noresponse 4 (getBody1 demo_manifold)" by (simp add: demo_manifold_def noresponse_def)
  have fl: "noresponse 4 (getBody0 demo_manifold) \<or> noresponse 4 (getBody1 demo_manifold)"
    using n1 by simp
  have evs: "snd (check_manifold scene 4 False demo_manifold (new_provider, [])) =
     [Fire (CollisionOf 0) ''triggerenter'' (ArgEntity 1),
      Fire (RigidbodyOf 1) ''triggerenter'' (ArgEntity 0)]"
    by code_simp
  have mem: "Fire (RigidbodyOf 1) ''triggerenter'' (ArgEntity 0)
     \<in> set (snd (check_manifold scene 4 False demo_manifold (new_provider, [])))"
    unfolding evs by simp
  from bspec [OF trigger_branch_triggerenter [OF b0 b1 fl, of scene False new_provider] mem]
  have "newly_listed scene new_provider (fst (check_manifold scene 4 False demo_manifold (new_provider, []))) 1 0 \<or>
    newly_listed scene new_provider (fst (check_manifold scene 4 False demo_manifold (new_provider, []))) 0 1"
    by simp
  with b0 b1 n1 mem show ?thesis by blast
qed

text \<open>
  C4 as it is stated fails for the rigidbody side: the ball of the scene, an ordinary body
  whose rigidbody component listens for \<open>triggerenter\<close>, enters the trigger volume; the
  event is fired on its rigidbody component although the opposite body, the trigger's, is
  flagged no-response.
\<close>

theorem trigger_branch_opposite_flagged_counterexample:
  "Fire (RigidbodyOf 1) ''triggerenter'' (ArgEntity 0)
     \<in> set (snd (check_manifold scene 4 False demo_manifold (new_provider, []))) \<and>
   body_entity (getBody0 demo_manifold) = Some 1 \<and>
   body_entity (getBody1 demo_manifold) = Some 0 \<and>
   noresponse 4 (getBody1 demo_manifold)"
  by code_simp

section \<open>Properties of afterStep and the raycasts\<close>

lemma afterStep_with_hook:
  "hasInternalTickCallback B \<Longrightarrow> afterStep G B H nr ge ms p = Inr (p, [])"
  by (simp add: afterStep_def)

lemma init_warns_once:
  "\<not> hasInternalTickCallback B \<Longrightarrow> fst (init B) = False \<and> length (snd (init B)) = 1"
  by (simp add: init_def)

text \<open>
  C6, at the failing input. On a backend without \<open>setInternalTickCallback\<close>, with no global
  named \<open>dt\<close>, \<open>init\<close> registers no callback and warns once, and \<open>afterStep\<close> raises a
  ReferenceError while it evaluates the arguments of the call: the detection pass is not
  invoked, where the claim has it invoked once.
\<close>

theorem afterStep_fallback_raises:
  "afterStep (\<lambda>name. False) demo_backend scene 4 False [demo_manifold] new_provider =
     Inl (ReferenceError ''dt'') \<and>
   hasInternalTickCallback demo_backend = False \<and>
   fst (init demo_backend) = False \<and>
   length (snd (init demo_backend)) = 1"
  by (simp add: afterStep_def demo_backend_def init_def)

text \<open>
  C7, at the failing input. Without filters, when the closest-hit query reports a hit whose
  body has no entity, \<open>raycastFirst\<close> returns a RaycastResult whose entity is undefined, where
  the claim has it return null.
\<close>

theorem raycastFirst_unresolved_hit_not_null:
  "fst (raycastFirst demo_backend no_tags (0, 5, 0) (0, - 5, 0) no_options) =
     Inr (Some \<lparr>r_entity = None, r_point = (0, 4, 0), r_normal = (0, 1, 0), hitFraction = 1 / 10\<rparr>) \<and>
   present (filterTags no_options) = False \<and>
   present (filterCallback no_options) = False \<and>
   c_hasHit (rayTestClosest demo_backend (0, 5, 0) (0, - 5, 0) None None) = True \<and>
   c_collisionObject (rayTestClosest demo_backend (0, 5, 0) (0, - 5, 0) None None) =
     Some \<lparr>body_entity = None, getCollisionFlags = 0\<rparr>"
  by (simp add: raycastFirst_def demo_backend_def no_options_def present_def)

lemma collect_hits_qualifying:
  "collect_hits tags_has opts hits = qualifying_results tags_has opts hits"
proof (induction hits)
  case Nil
  show ?case by (simp add: qualifying_results_def)
next
  case (Cons h hs)
  then show ?case
    by (auto simp add: qualifying_results_def resolved_entity_def passes_filters_def
        split: option.splits)
qed

text \<open>
  C9. When the backend has the all-hits query and its callback reports a hit exactly when
  it holds one, \<open>raycastAll\<close> returns a list: the list holds, with multiplicity, one
  RaycastResult for each hit that resolves to an entity passing the tag and callback
  filters; with \<open>sort\<close> set its hit fractions are in non-decreasing order; without it the
  results keep the backend's order.
\<close>

theorem raycastAll_results:
  assumes "hasAllHitsRayResultCallback B"
    and "a_hasHit (rayTestAll B rayStart rayEnd (filterCollisionGroup opts) (filterCollisionMask opts)) =
         (a_hits (rayTestAll B rayStart rayEnd (filterCollisionGroup opts) (filterCollisionMask opts)) \<noteq> [])"
  shows
   "\<exists>rs. raycastAll B tags_has rayStart rayEnd opts = Inr rs \<and>
      mset rs = mset (qualifying_results tags_has opts
        (a_hits (rayTestAll B rayStart rayEnd (filterCollisionGroup opts) (filterCollisionMask opts)))) \<and>
      (sort_opt opts \<longrightarrow> sorted (map hitFraction rs)) \<and>
      (\<not> sort_opt opts \<longrightarrow> rs = qualifying_results tags_has opts
        (a_hits (rayTestAll B rayStart rayEnd (filterCollisionGroup opts) (filterCollisionMask opts))))"
proof -
  let ?cb = "rayTestAll B rayStart rayEnd (filterCollisionGroup opts) (filterCollisionMask opts)"
  let ?q = "qualifying_results tags_has opts (a_hits ?cb)"
  have empty: "\<not> a_hasHit ?cb \<Longrightarrow> ?q = []"
    using assms(2) by (simp add: qualifying_results_def)
  have eq: "raycastAll B tags_has rayStart rayEnd opts =
      Inr (if a_hasHit ?cb then (if sort_opt opts then sort_key hitFraction ?q else ?q) else [])"
    using assms(1) by (simp add: raycastAll_def Let_def collect_hits_qualifying)
  show ?thesis
    unfolding eq using empty by (cases "a_hasHit ?cb") auto
qed

theorem raycastAll_results_witness:
  "hasAllHitsRayResultCallback demo_backend \<and>
   a_hasHit (rayTestAll demo_backend (0, 5, 0) (0, - 5, 0) None None) =
     (a_hits (rayTestAll demo_backend (0, 5, 0) (0, - 5, 0) None None) \<noteq> []) \<and>
   sort_opt (no_options\<lparr>sort_opt := True\<rparr>) \<and>
   (\<exists>rs. raycastAll demo_backend no_tags (0, 5, 0) (0, - 5, 0) (no_options\<lparr>sort_opt := True\<rparr>) = Inr rs \<and>
      sorted (map hitFraction rs)) \<and>
   raycastAll demo_backend no_tags (0, 5, 0) (0, - 5, 0) (no_options\<lparr>sort_opt := True\<rparr>) =
     Inr [\<lparr>r_entity = Some 1, r_point = (0, 1, 0), r_normal = (0, 1, 0), hitFraction = 2 / 5\<rparr>,
          \<lparr>r_entity = Some 2, r_point = (0, - 2, 0), r_normal = (0, 1, 0), hitFraction = 7 / 10\<rparr>]"
proof -
  have h1: "hasAllHitsRayResultCallback demo_backend" by (simp add: demo_backend_def)
  have g: "filterCollisionGroup (no_options\<lparr>sort_opt := True\<rparr>) = None"
    and m: "filterCollisionMask (no_options\<lparr>sort_opt := True\<rparr>) = None"
    by (simp_all add: no_options_def)
  have h2: "a_hasHit (rayTestAll demo_backend (0, 5, 0) (0, - 5, 0) None None) =
     (a_hits (rayTestAll demo_backend (0, 5, 0) (0, - 5, 0) None None) \<noteq> [])"
    by (simp add: demo_backend_def)
  have s: "sort_opt (no_options\<lparr>sort_opt := True\<rparr>)" by simp
  from raycastAll_results [of demo_backend "(0, 5, 0)" "(0, - 5, 0)" "no_options\<lparr>sort_opt := True\<rparr>" no_tags]
    h1 h2 s
  have ex: "\<exists>rs. raycastAll demo_backend no_tags (0, 5, 0) (0, - 5, 0) (no_options\<lparr>sort_opt := True\<rparr>) = Inr rs \<and>
      sorted (map hitFraction rs)"
    unfolding g m by blast
  have ev: "raycastAll demo_backend no_tags (0, 5, 0) (0, - 5, 0) (no_options\<lparr>sort_opt := True\<rparr>) =
     Inr [\<lparr>r_entity = Some 1, r_point = (0, 1, 0), r_normal = (0, 1, 0), hitFraction = 2 / 5\<rparr>,
          \<lparr>r_entity = Some 2, r_point = (0, - 2, 0), r_normal = (0, 1, 0), hitFraction = 7 / 10\<rparr>]"
    by (simp add: raycastAll_def demo_backend_def no_options_def)
  from h1 h2 s ex ev show ?thesis by blast
qed

text \<open>
  C8. When the options hold \<open>filterTags\<close> or \<open>filterCallback\<close>, the result of \<open>raycastFirst\<close>
  is the first element of what \<open>raycastAll\<close> returns for the options with \<open>sort\<close> set, null
  when that is empty (and its failure when it fails); and the result is the same whatever
  the closest-hit query of the backend would answer.
\<close>

theorem raycastFirst_delegates:
  assumes "present (filterTags opts) \<or> present (filterCallback opts)"
  shows
   "fst (raycastFirst B tags_has rayStart rayEnd opts) =
      raycastFirst_spec B tags_has rayStart rayEnd opts \<and>
    (\<forall>q. fst (raycastFirst (B\<lparr>rayTestClosest := q\<rparr>) tags_has rayStart rayEnd opts) =
          fst (raycastFirst B tags_has rayStart rayEnd opts))"
proof -
  have same: "raycastAll (B\<lparr>rayTestClosest := q\<rparr>) tags_has rayStart rayEnd o' =
      raycastAll B tags_has rayStart rayEnd o'" for q o'
    by (simp add: raycastAll_def)
  have first: "fst (raycastFirst B' tags_has rayStart rayEnd opts) =
      (case raycastAll B' tags_has rayStart rayEnd (opts\<lparr>sort_opt := True\<rparr>) of
         Inl err \<Rightarrow> Inl err
       | Inr rs \<Rightarrow> Inr (if 0 < length rs then Some (rs ! 0) else None))" for B'
    using assms by (simp add: raycastFirst_def Let_def)
  have "fst (raycastFirst B tags_has rayStart rayEnd opts) =
      raycastFirst_spec B tags_has rayStart rayEnd opts"
    unfolding first raycastFirst_spec_def
    by (simp split: sum.splits list.splits)
  moreover have "\<forall>q. fst (raycastFirst (B\<lparr>rayTestClosest := q\<rparr>) tags_has rayStart rayEnd opts) =
          fst (raycastFirst B tags_has rayStart rayEnd opts)"
    unfolding first same by simp
  ultimately show ?thesis by blast
qed

theorem raycastFirst_delegates_witness:
  "present (filterCallback ball_options) \<and>
   fst (raycastFirst demo_backend no_tags (0, 5, 0) (0, - 5, 0) ball_options) =
     raycastFirst_spec demo_backend no_tags (0, 5, 0) (0, - 5, 0) ball_options \<and>
   raycastFirst_spec demo_backend no_tags (0, 5, 0) (0, - 5, 0) ball_options =
     Inr (Some \<lparr>r_entity = Some 1, r_point = (0, 1, 0), r_normal = (0, 1, 0), hitFraction = 2 / 5\<rparr>)"
proof -
  have pr: "present (filterCallback ball_options)"
    by (simp add: present_def ball_options_def)
  then have hyp: "present (filterTags ball_options) \<or> present (filterCallback ball_options)" by simp
  from raycastFirst_delegates [OF hyp, of demo_backend no_tags "(0, 5, 0)" "(0, - 5, 0)"]
  have eq: "fst (raycastFirst demo_backend no_tags (0, 5, 0) (0, - 5, 0) ball_options) =
     raycastFirst_spec demo_backend no_tags (0, 5, 0) (0, - 5, 0) ball_options" by blast
  have ev: "raycastFirst_spec demo_backend no_tags (0, 5, 0) (0, - 5, 0) ball_options =
     Inr (Some \<lparr>r_entity = Some 1, r_point = (0, 1, 0), r_normal = (0, 1, 0), hitFraction = 2 / 5\<rparr>)"
    by (simp add: raycastFirst_spec_def raycastAll_def demo_backend_def ball_options_def)
  from pr eq ev show ?thesis by blast
qed

text \<open>
  C10. When the options hold \<open>filterTags\<close> or \<open>filterCallback\<close>, the options object that
  \<open>raycastFirst\<close> leaves to its caller is the one it was given with \<open>sort\<close> set to true,
  whether \<open>raycastAll\<close> returned or failed, and nothing else of it is changed.
\<close>

theorem raycastFirst_sets_sort:
  assumes "present (filterTags opts) \<or> present (filterCallback opts)"
  shows "snd (raycastFirst B tags_has rayStart rayEnd opts) = opts\<lparr>sort_opt := True\<rparr>"
  using assms by (simp add: raycastFirst_def Let_def)

theorem raycastFirst_sets_sort_witness:
  "present (filterCallback ball_options) \<and>
   sort_opt ball_options = False \<and>
   sort_opt (snd (raycastFirst demo_backend no_tags (0, 5, 0) (0, - 5, 0) ball_options)) = True"
proof -
  have pr: "present (filterCallback ball_options)"
    by (simp add: present_def ball_options_def)
  then have hyp: "present (filterTags ball_options) \<or> present (filterCallback ball_options)" by simp
  have off: "sort_opt ball_options = False" by (simp add: ball_options_def)
  have "sort_opt (snd (raycastFirst demo_backend no_tags (0, 5, 0) (0, - 5, 0) ball_options)) = True"
    unfolding raycastFirst_sets_sort [OF hyp] by simp
  with pr off show ?thesis by blast
qed

end
